theory Spec2Isabelle
  imports Main "HOL-Library.AList"
begin

section \<open>JavaScript values used by the two scripts\<close>

text \<open>
  In \<open>resScript.js\<close> a string is the list of its UTF-16 code units, each an integer
  from 0 to 65535; \<open>js\<close> writes one down from ASCII text. The script looks into its
  strings: it lower-cases them, strips white space and punctuation, and reads numbers
  from them.

  A number is a binary64 value: \<open>NaN\<close>, an infinity, or \<open>Fin m e\<close>, which stands for
  \<open>m * 2\<^sup>e\<close>. The numbers made below are canonical: zero is \<open>Fin 0 0\<close>, and any other
  has an odd \<open>m\<close> with \<open>\<bar>m\<bar> < 2^53\<close> and \<open>e\<close> from -1074 on, so that two of them
  are the same number exactly when they are equal. The zero with a minus sign is not
  kept apart from zero: the script compares it like zero and prints it as \<open>0\<close>, and
  does nothing else with it.
\<close>

type_synonym ustring = "int list"

definition codeUnit :: "char \<Rightarrow> int" where
  "codeUnit c = of_char c"

definition js :: "string \<Rightarrow> ustring" where
  "js cs = map codeUnit cs"

datatype jsnum = NaN | PInf | NInf | Fin int int

text \<open>\<open>m * 2\<^sup>e < n * 2\<^sup>f\<close>, decided on integers after scaling both sides to the
  smaller exponent.\<close>

definition finLess :: "int \<Rightarrow> int \<Rightarrow> int \<Rightarrow> int \<Rightarrow> bool" where
  "finLess m e n f = (let c = min e f in m * 2 ^ nat (e - c) < n * 2 ^ nat (f - c))"

text \<open>The relational operators \<open><\<close>, \<open>>\<close>, \<open><=\<close>: false as soon as one side is \<open>NaN\<close>.\<close>

fun js_lt :: "jsnum \<Rightarrow> jsnum \<Rightarrow> bool" where
  "js_lt NaN _ = False"
| "js_lt _ NaN = False"
| "js_lt PInf _ = False"
| "js_lt _ NInf = False"
| "js_lt NInf _ = True"
| "js_lt _ PInf = True"
| "js_lt (Fin m e) (Fin n f) = finLess m e n f"

definition js_gt :: "jsnum \<Rightarrow> jsnum \<Rightarrow> bool" where
  "js_gt a b = js_lt b a"

fun js_le :: "jsnum \<Rightarrow> jsnum \<Rightarrow> bool" where
  "js_le NaN _ = False"
| "js_le _ NaN = False"
| "js_le a b = (\<not> js_lt b a)"

definition js_isNaN :: "jsnum \<Rightarrow> bool" where
  "js_isNaN x = (x = NaN)"

text \<open>\<open>Math.max\<close> and \<open>Math.min\<close> of two numbers.\<close>

definition Math_max :: "jsnum \<Rightarrow> jsnum \<Rightarrow> jsnum" where
  "Math_max a b = (if a = NaN \<or> b = NaN then NaN else if js_lt a b then b else a)"

definition Math_min :: "jsnum \<Rightarrow> jsnum \<Rightarrow> jsnum" where
  "Math_min a b = (if a = NaN \<or> b = NaN then NaN else if js_lt b a then b else a)"

subsection \<open>Rounding to binary64\<close>

text \<open>The number of binary digits of a positive whole number.\<close>

function bitLength :: "int \<Rightarrow> int" where
  "bitLength n = (if n \<le> 0 then 0 else 1 + bitLength (n div 2))"
  by pat_completeness auto
termination
  by (relation "measure nat") auto

declare bitLength.simps [simp del]

text \<open>The canonical form of \<open>m * 2\<^sup>e\<close>: the factors 2 of \<open>m\<close> go into the exponent.\<close>

function canonical :: "int \<Rightarrow> int \<Rightarrow> jsnum" where
  "canonical m e =
     (if m = 0 then Fin 0 0 else if even m then canonical (m div 2) (e + 1) else Fin m e)"
  by pat_completeness auto
termination
  by (relation "measure (\<lambda>(m, e). nat \<bar>m\<bar>)") auto

declare canonical.simps [simp del]

text \<open>\<open>atLeastPow n d l\<close> tells whether \<open>2\<^sup>l \<le> n / d\<close>, for a whole number \<open>l\<close> of
  either sign.\<close>

definition atLeastPow :: "int \<Rightarrow> int \<Rightarrow> int \<Rightarrow> bool" where
  "atLeastPow n d l = (d * 2 ^ nat l \<le> n * 2 ^ nat (- l))"

text \<open>The whole part of the binary logarithm of a positive fraction \<open>n / d\<close>: the
  difference of the bit lengths, or one less.\<close>

definition binaryOrder :: "int \<Rightarrow> int \<Rightarrow> int" where
  "binaryOrder n d =
     (let l0 = bitLength n - bitLength d
      in if atLeastPow n d l0 then l0 else l0 - 1)"

text \<open>
  \<open>nearest n d\<close> is the binary64 value nearest to the fraction \<open>n / d\<close>, for \<open>n\<close> not
  negative and \<open>d\<close> positive, a tie going to the even significand. \<open>x\<close> is the
  exponent of the last place, which stops at -1074 where the subnormal numbers begin;
  \<open>q\<close> and \<open>r\<close> are quotient and remainder of the fraction by \<open>2\<^sup>x\<close>. What rounds
  to \<open>2^1024\<close> or lies above is \<open>Infinity\<close>.
\<close>

definition nearest :: "int \<Rightarrow> int \<Rightarrow> jsnum" where
  "nearest n d =
     (if n \<le> 0 then Fin 0 0
      else
        let x = max (binaryOrder n d - 52) (- 1074);
            num = n * 2 ^ nat (- x);
            den = d * 2 ^ nat x;
            q = num div den;
            r = num mod den;
            q' = (if 2 * r < den \<or> (2 * r = den \<and> even q) then q else q + 1)
        in if 971 < x \<or> (x = 971 \<and> q' = 2 ^ 53) then PInf else canonical q' x)"

definition negate :: "jsnum \<Rightarrow> jsnum" where
  "negate x = (case x of NaN \<Rightarrow> NaN | PInf \<Rightarrow> NInf | NInf \<Rightarrow> PInf | Fin m e \<Rightarrow> Fin (- m) e)"

text \<open>\<open>decimal m e\<close> is the number that the decimal numeral \<open>m * 10\<^sup>e\<close> denotes, in the
  program text and in a string alike: \<open>decimal 1 (- 1)\<close> is what \<open>0.1\<close> denotes.\<close>

definition decimal :: "int \<Rightarrow> int \<Rightarrow> jsnum" where
  "decimal m e =
     (let v = nearest (\<bar>m\<bar> * 10 ^ nat e) (10 ^ nat (- e))
      in if m < 0 then negate v else v)"

subsection \<open>Code units\<close>

definition isDigit :: "int \<Rightarrow> bool" where
  "isDigit c = (48 \<le> c \<and> c \<le> 57)"

definition isLower :: "int \<Rightarrow> bool" where
  "isLower c = (97 \<le> c \<and> c \<le> 122)"

text \<open>
  The white space and line terminators of ECMAScript, which are what the regular
  expression class \<open>\s\<close> matches and what \<open>parseFloat\<close> skips: tab, line feed, vertical
  tab, form feed, carriage return, space, no-break space, the other space separators of
  Unicode (U+1680, U+2000 to U+200A, U+202F, U+205F, U+3000), the line and paragraph
  separators U+2028 and U+2029, and the byte order mark U+FEFF.
\<close>

definition isSpace :: "int \<Rightarrow> bool" where
  "isSpace c =
     (c \<in> set [0x09, 0x0A, 0x0B, 0x0C, 0x0D, 0x20, 0xA0, 0x1680, 0x2028, 0x2029, 0x202F,
               0x205F, 0x3000, 0xFEFF]
      \<or> (0x2000 \<le> c \<and> c \<le> 0x200A))"

text \<open>
  \<open>String.prototype.toLowerCase\<close>. Unicode sends to ASCII letters the capital letters
  \<open>A\<close> to \<open>Z\<close>, the Kelvin sign U+212A, which becomes \<open>k\<close>, and the dotted capital
  U+0130, which becomes \<open>i\<close> followed by the combining dot U+0307. Every other code
  unit stays outside the ASCII letters and digits whatever its lower case is; it is kept
  as it is here, and \<open>normalizeKey\<close>, the one user of this function, removes it.
\<close>

definition lowerUnit :: "int \<Rightarrow> ustring" where
  "lowerUnit c =
     (if 0x41 \<le> c \<and> c \<le> 0x5A then [c + 0x20]
      else if c = 0x212A then js ''k''
      else if c = 0x0130 then js ''i'' @ [0x0307]
      else [c])"

definition toLowerCase :: "ustring \<Rightarrow> ustring" where
  "toLowerCase s = concat (map lowerUnit s)"

subsection \<open>Number to string\<close>

function intToDigits :: "int \<Rightarrow> ustring" where
  "intToDigits n = (if n < 10 then [48 + n] else intToDigits (n div 10) @ [48 + n mod 10])"
  by pat_completeness auto
termination
  by (relation "measure nat") auto

declare intToDigits.simps [simp del]

function stripZeros :: "int \<Rightarrow> int" where
  "stripZeros s = (if s \<noteq> 0 \<and> s mod 10 = 0 then stripZeros (s div 10) else s)"
  by pat_completeness auto
termination
  by (relation "measure (\<lambda>s. nat \<bar>s\<bar>)") auto

declare stripZeros.simps [simp del]

text \<open>The number of decimal digits of a whole number.\<close>

function digitCount :: "int \<Rightarrow> int" where
  "digitCount q = (if q < 10 then 1 else 1 + digitCount (q div 10))"
  by pat_completeness auto
termination
  by (relation "measure nat") auto

declare digitCount.simps [simp del]

text \<open>For a fraction \<open>n / d\<close> between 0 and 1, the least \<open>j\<close> from 1 on with
  \<open>1 \<le> n / d * 10\<^sup>j\<close>.\<close>

function leadZeros :: "int \<Rightarrow> int \<Rightarrow> int" where
  "leadZeros n d = (if n \<le> 0 \<or> d \<le> n * 10 then 1 else 1 + leadZeros (n * 10) d)"
  by pat_completeness auto
termination
  by (relation "measure (\<lambda>(n, d). nat (d - n))") auto

declare leadZeros.simps [simp del]

text \<open>The place \<open>n\<close> of the decimal point of a positive fraction:
  \<open>10^(n-1) \<le> n / d < 10^n\<close>.\<close>

definition decimalOrder :: "int \<Rightarrow> int \<Rightarrow> int" where
  "decimalOrder n d = (if d \<le> n then digitCount (n div d) else 1 - leadZeros n d)"

text \<open>
  \<open>Number::toString\<close> of ECMAScript prints the shortest decimal numeral that denotes
  the number, and of several shortest ones the nearest. \<open>shortest m e n k\<close> looks for
  it with \<open>k\<close> digits, then with \<open>k + 1\<close>, and so on, for the positive number
  \<open>m * 2\<^sup>e\<close> whose decimal point has place \<open>n\<close>: \<open>lo\<close> and \<open>lo + 1\<close> are the two
  numerals of \<open>k\<close> digits around the number. The search ends at the latest when the
  decimal expansion of the number is complete (\<open>r = 0\<close>), which happens after finitely
  many digits.
\<close>

function shortest :: "int \<Rightarrow> int \<Rightarrow> int \<Rightarrow> int \<Rightarrow> int \<times> int" where
  "shortest m e n k =
     (let num = m * 2 ^ nat e * 10 ^ nat (k - n);
          den = 2 ^ nat (- e) * 10 ^ nat (n - k);
          lo = num div den;
          r = num mod den;
          okLo = (decimal lo (n - k) = canonical m e);
          okHi = (decimal (lo + 1) (n - k) = canonical m e)
      in if r = 0 then (lo, k)
         else if okLo \<and> okHi then (if 2 * r \<le> den then (lo, k) else (lo + 1, k))
         else if okLo then (lo, k)
         else if okHi then (lo + 1, k)
         else shortest m e n (k + 1))"
  by pat_completeness auto
termination
proof (relation "measure (\<lambda>(m, e, n, k). nat (n + int (nat (- e)) - k))", goal_cases)
  case 1
  show ?case by simp
next
  case (2 m e n k num den lo r okLo okHi)
  have "k < n + int (nat (- e))"
  proof (rule ccontr)
    assume "\<not> k < n + int (nat (- e))"
    then have late: "n + int (nat (- e)) \<le> k" by simp
    then have a: "nat (n - k) = 0" by linarith
    from late have "nat (- e) \<le> nat (k - n)" by linarith
    then obtain j where j: "nat (k - n) = nat (- e) + j" using le_Suc_ex by blast
    have "(10::int) ^ nat (k - n) = 2 ^ nat (- e) * (5 ^ nat (- e) * 10 ^ j)"
      unfolding j power_add by (simp add: power_mult_distrib [symmetric])
    then have "(m * 2 ^ nat e * 10 ^ nat (k - n)) mod (2 ^ nat (- e) * 10 ^ nat (n - k)) = 0"
      by (simp add: a)
    with 2 show False by simp
  qed
  then show ?case by simp
qed

declare shortest.simps [simp del]

text \<open>
  \<open>formatDigits ds n\<close> writes the significant digits \<open>ds\<close> of a positive number whose
  decimal point stands after digit \<open>n\<close>: without exponent when \<open>-6 < n \<le> 21\<close>, and in
  exponent form otherwise.
\<close>

definition formatDigits :: "ustring \<Rightarrow> int \<Rightarrow> ustring" where
  "formatDigits ds n =
     (let k = int (length ds)
      in if k \<le> n \<and> n \<le> 21 then ds @ replicate (nat (n - k)) 0x30
         else if 0 < n \<and> n \<le> 21 then take (nat n) ds @ js ''.'' @ drop (nat n) ds
         else if - 6 < n \<and> n \<le> 0 then js ''0.'' @ replicate (nat (- n)) 0x30 @ ds
         else
           let ex = n - 1;
               es = (if ex < 0 then js ''-'' else js ''+'') @ intToDigits \<bar>ex\<bar>
           in if k = 1 then ds @ js ''e'' @ es
              else take 1 ds @ js ''.'' @ drop 1 ds @ js ''e'' @ es)"

definition numToString :: "jsnum \<Rightarrow> ustring" where
  "numToString x = (case x of
       NaN \<Rightarrow> js ''NaN''
     | PInf \<Rightarrow> js ''Infinity''
     | NInf \<Rightarrow> js ''-Infinity''
     | Fin m e \<Rightarrow>
         if m = 0 then js ''0''
         else
           let a = \<bar>m\<bar>;
               n = decimalOrder (a * 2 ^ nat e) (2 ^ nat (- e));
               (s, k) = shortest a e n 1
           in (if m < 0 then js ''-'' else [])
                @ formatDigits (intToDigits (stripZeros s)) (n - k + digitCount s))"

subsection \<open>String to number\<close>

definition digitsToInt :: "ustring \<Rightarrow> int" where
  "digitsToInt ds = foldl (\<lambda>a c. 10 * a + (c - 48)) 0 ds"

text \<open>The exponent part \<open>e\<close> or \<open>E\<close>, an optional sign and at least one digit; anything
  else after the mantissa is ignored and counts as exponent 0.\<close>

definition exponentPart :: "ustring \<Rightarrow> int" where
  "exponentPart r = (case r of
       [] \<Rightarrow> 0
     | c # r1 \<Rightarrow>
         if c = codeUnit CHR ''e'' \<or> c = codeUnit CHR ''E'' then
           (let (neg, r2) = (case r1 of
                    [] \<Rightarrow> (False, r1)
                  | d # r3 \<Rightarrow> if d = codeUnit CHR ''-'' then (True, r3)
                             else if d = codeUnit CHR ''+'' then (False, r3) else (False, r1));
                ds = takeWhile isDigit r2
            in if ds = [] then 0
               else if neg then - digitsToInt ds else digitsToInt ds)
         else 0)"

text \<open>
  A decimal literal without sign at the start of a string: digits, an optional fraction
  and an optional exponent, with at least one digit before the exponent. The answer is
  the mantissa, read as a whole number, and the power of ten it is scaled by; \<open>None\<close>
  when the string starts with no such literal.
\<close>

definition decimalLiteral :: "ustring \<Rightarrow> (int \<times> int) option" where
  "decimalLiteral u =
     (let ip = takeWhile isDigit u;
          r1 = dropWhile isDigit u;
          (fp, r2) = (case r1 of
               [] \<Rightarrow> ([], r1)
             | c # r \<Rightarrow> if c = codeUnit CHR ''.'' then (takeWhile isDigit r, dropWhile isDigit r)
                        else ([], r1))
      in if ip = [] \<and> fp = [] then None
         else Some (digitsToInt (ip @ fp), exponentPart r2 - int (length fp)))"

text \<open>
  \<open>parseFloat\<close>: skip leading white space, read an optional sign and the longest prefix
  that is \<open>Infinity\<close> or a decimal literal, and answer \<open>NaN\<close> when there is none. The
  literal is rounded to the nearest binary64 value.
\<close>

definition parseFloat :: "ustring \<Rightarrow> jsnum" where
  "parseFloat s =
     (let t = dropWhile isSpace s;
          (neg, u) = (case t of
               [] \<Rightarrow> (False, t)
             | c # r \<Rightarrow> if c = codeUnit CHR ''-'' then (True, r)
                        else if c = codeUnit CHR ''+'' then (False, r) else (False, t))
      in if take 8 u = js ''Infinity'' then (if neg then NInf else PInf)
         else
           (case decimalLiteral u of
              None \<Rightarrow> NaN
            | Some (mant, ex) \<Rightarrow> if neg then negate (decimal mant ex) else decimal mant ex))"

section \<open>resScript.js: the limits table and the synonym map\<close>

record limits =
  lmin :: jsnum
  lmax :: jsnum
  lstep :: jsnum

definition mkLimits :: "jsnum \<Rightarrow> jsnum \<Rightarrow> jsnum \<Rightarrow> limits" where
  "mkLimits lo hi st = \<lparr> lmin = lo, lmax = hi, lstep = st \<rparr>"

definition LIMITS_table :: "(ustring \<times> limits) list" where
  "LIMITS_table =
    [ (js ''age'', mkLimits (decimal 18 0) (decimal 100 0) (decimal 1 0)),
      (js ''bmi'', mkLimits (decimal 10 0) (decimal 60 0) (decimal 1 (- 1))),
      (js ''heartrate'', mkLimits (decimal 40 0) (decimal 200 0) (decimal 1 0)),
      (js ''sysbp'', mkLimits (decimal 80 0) (decimal 250 0) (decimal 1 0)),
      (js ''diabp'', mkLimits (decimal 50 0) (decimal 150 0) (decimal 1 0)),
      (js ''restingbps'', mkLimits (decimal 80 0) (decimal 200 0) (decimal 1 0)),
      (js ''maxheartrate'', mkLimits (decimal 60 0) (decimal 220 0) (decimal 1 0)),
      (js ''cholesterol'', mkLimits (decimal 100 0) (decimal 400 0) (decimal 1 0)),
      (js ''totchol'', mkLimits (decimal 100 0) (decimal 400 0) (decimal 1 0)),
      (js ''oldpeak'', mkLimits (decimal 0 0) (decimal 6 0) (decimal 1 (- 1))),
      (js ''stslope'', mkLimits (decimal 0 0) (decimal 2 0) (decimal 1 0)),
      (js ''fastingbloodsugar'', mkLimits (decimal 0 0) (decimal 1 0) (decimal 1 0)),
      (js ''sex'', mkLimits (decimal 0 0) (decimal 1 0) (decimal 1 0)),
      (js ''chestpaintype'', mkLimits (decimal 0 0) (decimal 3 0) (decimal 1 0)),
      (js ''exerciseangina'', mkLimits (decimal 0 0) (decimal 1 0) (decimal 1 0)),
      (js ''currentsmoker'', mkLimits (decimal 0 0) (decimal 1 0) (decimal 1 0)),
      (js ''cigsperday'', mkLimits (decimal 0 0) (decimal 60 0) (decimal 1 0)),
      (js ''bpmeds'', mkLimits (decimal 0 0) (decimal 1 0) (decimal 1 0)),
      (js ''prevalentstroke'', mkLimits (decimal 0 0) (decimal 1 0) (decimal 1 0)),
      (js ''prevalenthyp'', mkLimits (decimal 0 0) (decimal 1 0) (decimal 1 0)),
      (js ''diabetes'', mkLimits (decimal 0 0) (decimal 1 0) (decimal 1 0)),
      (js ''restecg'', mkLimits (decimal 0 0) (decimal 2 0) (decimal 1 0)) ]"

definition SYN_table :: "(ustring \<times> ustring) list" where
  "SYN_table =
    [ (js ''cholesterolmgdl'', js ''cholesterol''),
      (js ''restingbpmmhg'', js ''restingbps''),
      (js ''maxheartratebpm'', js ''maxheartrate''),
      (js ''oldpeakstdepression'', js ''oldpeak''),
      (js ''stslope'', js ''stslope''),
      (js ''fastingbloodsugar'', js ''fastingbloodsugar''),
      (js ''exerciseinducedangina'', js ''exerciseangina''),
      (js ''trestbps'', js ''restingbps''),
      (js ''thalach'', js ''maxheartrate''),
      (js ''fbs'', js ''fastingbloodsugar''),
      (js ''cp'', js ''chestpaintype''),
      (js ''exang'', js ''exerciseangina''),
      (js ''restingbps'', js ''restingbps''),
      (js ''restingbpsystolic'', js ''restingbps''),
      (js ''resting-bp-s'', js ''restingbps''),
      (js ''max-heart-rate'', js ''maxheartrate'') ]"

text \<open>
  \<open>LIMITS[k]\<close> and \<open>SYN[k]\<close> are property reads on object literals. Besides the own
  properties they see what \<open>Object.prototype\<close> provides; of those names only
  \<open>constructor\<close> consists of lower-case letters and digits alone and so can come out of
  \<open>normalizeKey\<close>. Its value is a function: truthy, and without \<open>min\<close>, \<open>max\<close> or
  \<open>step\<close>.
\<close>

datatype 'a lookup = Own 'a | Inherited | Missing

definition objectRead :: "(ustring \<times> 'a) list \<Rightarrow> ustring \<Rightarrow> 'a lookup" where
  "objectRead tbl k = (case map_of tbl k of
       Some v \<Rightarrow> Own v
     | None \<Rightarrow> if k = js ''constructor'' then Inherited else Missing)"

definition LIMITS :: "ustring \<Rightarrow> limits lookup" where
  "LIMITS k = objectRead LIMITS_table k"

definition SYN :: "ustring \<Rightarrow> ustring lookup" where
  "SYN k = objectRead SYN_table k"

subsection \<open>normalizeKey, canonicalKey, clamp\<close>

definition normalizeKey :: "ustring \<Rightarrow> ustring" where
  "normalizeKey s =
     (if s = [] then []
      else
        let a = toLowerCase s;
            b = filter (\<lambda>c. \<not> isSpace c) a;
            c = filter (\<lambda>c. c \<notin> set (js ''()/-._'')) b
        in filter (\<lambda>c. isLower c \<or> isDigit c) c)"

text \<open>In \<open>canonicalKey\<close> the read of \<open>SYN\<close> happens only after \<open>LIMITS[k]\<close> was falsy, so
  it never meets the inherited \<open>constructor\<close>.\<close>

definition canonicalKey :: "ustring \<Rightarrow> ustring" where
  "canonicalKey raw =
     (let k = normalizeKey raw
      in case LIMITS k of
           Own _ \<Rightarrow> k
         | Inherited \<Rightarrow> k
         | Missing \<Rightarrow> (case SYN k of Own v \<Rightarrow> v | _ \<Rightarrow> k))"

datatype numOrStr = IsNum jsnum | IsStr ustring

definition clamp :: "numOrStr \<Rightarrow> jsnum \<Rightarrow> jsnum \<Rightarrow> jsnum" where
  "clamp v lo hi =
     (let x = (case v of IsNum n \<Rightarrow> n | IsStr t \<Rightarrow> parseFloat t)
      in if js_isNaN x then lo else Math_min hi (Math_max lo x))"

subsection \<open>Sliders and applyLimitsFromMap\<close>

text \<open>
  A slider is an \<open>input.slider\<close> element as the script reads and writes it: the
  \<open>data-feat\<close> attribute (absent or a string), \<open>id\<close> and \<open>name\<close> (empty when
  absent), and the properties \<open>min\<close>, \<open>max\<close>, \<open>step\<close> and \<open>value\<close>, which hold
  strings; assigning a number stores its string. \<open>valueSpan\<close> is the read-out that
  \<open>findValueSpanForInput\<close> finds for the slider, as an index into the page's spans.
  What a browser does to a range control on its own (snapping the value to the step
  grid) is not part of the script and not part of the model.
\<close>

record slider =
  feat :: "ustring option"
  sid :: ustring
  sname :: ustring
  smin :: ustring
  smax :: ustring
  sstep :: ustring
  svalue :: ustring
  valueSpan :: "nat option"

definition featRaw :: "slider \<Rightarrow> ustring" where
  "featRaw s =
     (case feat s of
        Some f \<Rightarrow> if f \<noteq> [] then f else if sid s \<noteq> [] then sid s else sname s
      | None \<Rightarrow> if sid s \<noteq> [] then sid s else sname s)"

definition numTruthy :: "jsnum \<Rightarrow> bool" where
  "numTruthy x = (case x of NaN \<Rightarrow> False | Fin m e \<Rightarrow> m \<noteq> 0 | _ \<Rightarrow> True)"

text \<open>
  When the key is the inherited \<open>constructor\<close>, \<open>lim\<close> is a function and \<open>lim.min\<close>,
  \<open>lim.max\<close> and \<open>lim.step\<close> are \<open>undefined\<close>: a comparison with \<open>undefined\<close> is
  false, an assignment stores the string \<open>undefined\<close>, \<open>lim.step || 1\<close> is 1, and
  \<open>clamp\<close> answers \<open>undefined\<close> for a value that is not a number and \<open>NaN\<close> otherwise.
\<close>

definition applyLimitsFromMap :: "slider \<Rightarrow> slider" where
  "applyLimitsFromMap input =
     (let key = canonicalKey (featRaw input)
      in case LIMITS key of
           Missing \<Rightarrow> input
         | Own lim \<Rightarrow>
             let curMin = parseFloat (smin input);
                 curMax = parseFloat (smax input);
                 i1 = (if js_isNaN curMin \<or> js_lt curMin (decimal (- 50) 0) \<or> js_gt curMin (lmin lim)
                       then input\<lparr>smin := numToString (lmin lim)\<rparr> else input);
                 i2 = (if js_isNaN curMax \<or> js_gt curMax (decimal 500 0) \<or> js_lt curMax (lmax lim)
                       then i1\<lparr>smax := numToString (lmax lim)\<rparr> else i1);
                 i3 = (if sstep i2 = [] \<or> sstep i2 = js ''any'' \<or> js_le (parseFloat (sstep i2)) (decimal 0 0)
                       then i2\<lparr>sstep := numToString (if numTruthy (lstep lim) then lstep lim else decimal 1 0)\<rparr>
                       else i2)
             in i3\<lparr>svalue := numToString (clamp (IsNum (parseFloat (svalue i3))) (lmin lim) (lmax lim))\<rparr>
         | Inherited \<Rightarrow>
             let curMin = parseFloat (smin input);
                 curMax = parseFloat (smax input);
                 i1 = (if js_isNaN curMin \<or> js_lt curMin (decimal (- 50) 0)
                       then input\<lparr>smin := js ''undefined''\<rparr> else input);
                 i2 = (if js_isNaN curMax \<or> js_gt curMax (decimal 500 0)
                       then i1\<lparr>smax := js ''undefined''\<rparr> else i1);
                 i3 = (if sstep i2 = [] \<or> sstep i2 = js ''any'' \<or> js_le (parseFloat (sstep i2)) (decimal 0 0)
                       then i2\<lparr>sstep := js ''1''\<rparr> else i2)
             in i3\<lparr>svalue := (if js_isNaN (parseFloat (svalue i3)) then js ''undefined'' else js ''NaN'')\<rparr>)"

subsection \<open>Values of the JSON response\<close>

datatype jsval =
    Undefined
  | Null
  | Bool bool
  | Num jsnum
  | Str ustring
  | Arr "jsval list"
  | Obj "(ustring \<times> jsval) list"

text \<open>
  A property read \<open>v.p\<close>, for the property names the script reads (\<open>final_cat\<close>,
  \<open>final_prob\<close>, \<open>tips\<close>, \<open>suggestions\<close>, \<open>top_features_values\<close>,
  \<open>feature\<close>, \<open>tip\<close>, \<open>name\<close>, \<open>value\<close>): none of them is provided by a
  prototype, so the read gives an own property of an object and \<open>undefined\<close> on
  anything else, and throws a \<open>TypeError\<close> (\<open>None\<close>) on \<open>null\<close> and \<open>undefined\<close>.
\<close>

definition getProp :: "jsval \<Rightarrow> ustring \<Rightarrow> jsval option" where
  "getProp v p = (case v of
       Undefined \<Rightarrow> None
     | Null \<Rightarrow> None
     | Obj kvs \<Rightarrow> Some (case map_of kvs p of Some x \<Rightarrow> x | None \<Rightarrow> Undefined)
     | _ \<Rightarrow> Some Undefined)"

definition truthy :: "jsval \<Rightarrow> bool" where
  "truthy v = (case v of
       Undefined \<Rightarrow> False
     | Null \<Rightarrow> False
     | Bool b \<Rightarrow> b
     | Num n \<Rightarrow> numTruthy n
     | Str t \<Rightarrow> t \<noteq> []
     | _ \<Rightarrow> True)"

text \<open>\<open>typeof v === "object"\<close> and \<open>Array.isArray(v)\<close>.\<close>

definition typeofObject :: "jsval \<Rightarrow> bool" where
  "typeofObject v = (case v of Null \<Rightarrow> True | Arr _ \<Rightarrow> True | Obj _ \<Rightarrow> True | _ \<Rightarrow> False)"

definition isArray :: "jsval \<Rightarrow> bool" where
  "isArray v = (case v of Arr _ \<Rightarrow> True | _ \<Rightarrow> False)"

text \<open>
  \<open>ToString\<close>. An array is the join of its elements with commas, \<open>null\<close> elements
  giving the empty string. An object parsed from JSON is \<open>[object Object]\<close>, unless it
  has an own property \<open>toString\<close>: that property hides the inherited method and is not
  callable, and the conversion throws a \<open>TypeError\<close> (\<open>None\<close>).
\<close>

fun toStringJS :: "jsval \<Rightarrow> ustring option"
  and joinJS :: "jsval list \<Rightarrow> ustring option"
  and elemJS :: "jsval \<Rightarrow> ustring option" where
  "toStringJS Undefined = Some (js ''undefined'')"
| "toStringJS Null = Some (js ''null'')"
| "toStringJS (Bool b) = Some (if b then js ''true'' else js ''false'')"
| "toStringJS (Num n) = Some (numToString n)"
| "toStringJS (Str t) = Some t"
| "toStringJS (Arr xs) = joinJS xs"
| "toStringJS (Obj kvs) =
     (if js ''toString'' \<in> set (map fst kvs) then None else Some (js ''[object Object]''))"
| "joinJS [] = Some []"
| "joinJS (x # xs) =
     (case elemJS x of
        None \<Rightarrow> None
      | Some a \<Rightarrow>
          if xs = [] then Some a
          else (case joinJS xs of None \<Rightarrow> None | Some b \<Rightarrow> Some (a @ js '','' @ b)))"
| "elemJS Undefined = Some []"
| "elemJS Null = Some []"
| "elemJS (Bool b) = toStringJS (Bool b)"
| "elemJS (Num n) = toStringJS (Num n)"
| "elemJS (Str t) = toStringJS (Str t)"
| "elemJS (Arr xs) = joinJS xs"
| "elemJS (Obj kvs) = toStringJS (Obj kvs)"

subsection \<open>The results page and the update button\<close>

datatype li = InnerHTML ustring | TextContent ustring

text \<open>
  The part of the document the click handler touches: the sliders in document order,
  the read-out spans, the update button, the element with id \<open>final-result\<close>, the first
  element of class \<open>prediction\<close> (when it is another element), and the items of the
  list \<open>.suggestions ul\<close>; \<open>None\<close> where the element does not exist.
\<close>

record page =
  sliders :: "slider list"
  spans :: "ustring list"
  btnDisabled :: bool
  btnText :: ustring
  finalResult :: "ustring option"
  prediction :: "ustring option"
  suggestions :: "li list option"

datatype effect =
    ConsoleWarn ustring
  | ConsoleError ustring
  | Alert ustring
  | Fetch ustring jsval "(ustring \<times> ustring) list"

text \<open>What the request comes back with: the promise is rejected, or there is a response
  with its \<open>ok\<close> flag and status, whose body is JSON or is not.\<close>

datatype body = BadJson | Json jsval

datatype response = NetworkError | Response bool nat body

text \<open>A statement of the \<open>try\<close> block ends normally or throws; either way the document
  is as the statement left it.\<close>

datatype outcome = Done page | Threw page

text \<open>
  Two things the handler asks of the browser are parameters:
  \<^item> \<open>percentText v\<close> is \<open>(v * 100).toFixed(1)\<close>, binary floating-point
    arithmetic; \<open>None\<close> when the conversion of \<open>v\<close> to a number throws.
  \<^item> \<open>otherSelector nm\<close> is the answer of \<open>document.querySelector\<close> to the selector
    built from a name \<open>nm\<close> that does not stand for itself between the quotes (see
    \<open>cssPlain\<close> below). The script pastes the name into the selector as it comes, so
    such a name gives a selector that no longer means "the attribute equals \<open>nm\<close>":
    it can be malformed, and it can be a list that selects sliders by other attributes.
\<close>

datatype selResult = SyntaxError | NoMatch | Match nat

record env =
  percentText :: "jsval \<Rightarrow> ustring option"
  otherSelector :: "ustring \<Rightarrow> selResult"

text \<open>The dash U+2014 of the two messages that carry one.\<close>

definition emDash :: ustring where
  "emDash = [0x2014]"

definition featKey :: "slider \<Rightarrow> ustring option" where
  "featKey s =
     (case feat s of
        Some f \<Rightarrow> if f \<noteq> [] then Some f else if sid s \<noteq> [] then Some (sid s)
                  else if sname s \<noteq> [] then Some (sname s) else None
      | None \<Rightarrow> if sid s \<noteq> [] then Some (sid s)
                else if sname s \<noteq> [] then Some (sname s) else None)"

text \<open>\<open>modified[featKey] = s.value\<close> for each slider in turn. Assigning a string to the key
  \<open>__proto__\<close> of an object literal creates no property.\<close>

definition collectModified :: "slider list \<Rightarrow> (ustring \<times> ustring) list" where
  "collectModified ss =
     fold (\<lambda>s m. case featKey s of
                    None \<Rightarrow> m
                  | Some k \<Rightarrow> if k = js ''__proto__'' then m else AList.update k (svalue s) m) ss []"

definition findValueSpanForInput :: "slider \<Rightarrow> nat option" where
  "findValueSpanForInput s = valueSpan s"

definition setResultText :: "ustring \<Rightarrow> page \<Rightarrow> page" where
  "setResultText t p =
     (case finalResult p of
        Some _ \<Rightarrow> p\<lparr>finalResult := Some t\<rparr>
      | None \<Rightarrow> p\<lparr>prediction := Some t\<rparr>)"

definition hasTarget :: "page \<Rightarrow> bool" where
  "hasTarget p = (finalResult p \<noteq> None \<or> prediction p \<noteq> None)"

definition updateResult :: "env \<Rightarrow> jsval \<Rightarrow> page \<Rightarrow> outcome" where
  "updateResult ev data p =
     (if hasTarget p then
        (case getProp data (js ''final_cat'') of
           None \<Rightarrow> Threw p
         | Some fc \<Rightarrow>
             if truthy fc then
               (case toStringJS fc of None \<Rightarrow> Threw p | Some t \<Rightarrow> Done (setResultText t p))
             else
               (case getProp data (js ''final_prob'') of
                  None \<Rightarrow> Threw p
                | Some fp \<Rightarrow>
                    if fp \<noteq> Undefined then
                      (case percentText ev fp of
                         None \<Rightarrow> Threw p
                       | Some t \<Rightarrow> Done (setResultText (t @ js ''%'') p))
                    else Done p))
      else Done p)"

definition textLi :: "jsval \<Rightarrow> li option" where
  "textLi t = map_option TextContent (toStringJS t)"

definition makeLi :: "jsval \<Rightarrow> li option" where
  "makeLi t =
     (if typeofObject t then
        (case getProp t (js ''feature'') of
           None \<Rightarrow> None
         | Some f \<Rightarrow>
             if truthy f then
               (case getProp t (js ''tip'') of
                  None \<Rightarrow> None
                | Some tp \<Rightarrow>
                    if truthy tp then
                      (case toStringJS f of
                         None \<Rightarrow> None
                       | Some a \<Rightarrow>
                           (case toStringJS tp of
                              None \<Rightarrow> None
                            | Some b \<Rightarrow>
                                Some (InnerHTML (js ''<strong>'' @ a @ js ''</strong> '' @ emDash @ js '' '' @ b))))
                    else textLi t)
             else textLi t)
      else textLi t)"

fun appendTips :: "jsval list \<Rightarrow> page \<Rightarrow> outcome" where
  "appendTips [] p = Done p"
| "appendTips (t # ts) p =
     (case makeLi t of
        None \<Rightarrow> Threw p
      | Some item \<Rightarrow>
          appendTips ts
            (case suggestions p of
               None \<Rightarrow> p
             | Some items \<Rightarrow> p\<lparr>suggestions := Some (items @ [item])\<rparr>))"

definition updateSuggestions :: "jsval \<Rightarrow> page \<Rightarrow> outcome" where
  "updateSuggestions data p =
     (case getProp data (js ''tips'') of
        None \<Rightarrow> Threw p
      | Some t1 \<Rightarrow>
          (case (if truthy t1 then Some t1 else getProp data (js ''suggestions'')) of
             None \<Rightarrow> Threw p
           | Some tips \<Rightarrow>
               if truthy tips then
                 (case suggestions p of
                    None \<Rightarrow> Done p
                  | Some _ \<Rightarrow>
                      (case tips of
                         Arr ts \<Rightarrow> appendTips ts (p\<lparr>suggestions := Some []\<rparr>)
                       | _ \<Rightarrow> Threw (p\<lparr>suggestions := Some []\<rparr>)))
               else Done p))"

fun findIndex :: "('a \<Rightarrow> bool) \<Rightarrow> 'a list \<Rightarrow> nat option" where
  "findIndex P [] = None"
| "findIndex P (x # xs) = (if P x then Some 0 else map_option Suc (findIndex P xs))"

text \<open>
  A name stands for itself between the double quotes of the selector when it holds no
  double quote, backslash, line feed, carriage return, form feed or NUL, and no
  surrogate code unit outside a pair: the first two end or escape the quoted string,
  and the style sheet syntax replaces the others before it reads the selector.
\<close>

fun cssPlain :: "ustring \<Rightarrow> bool" where
  "cssPlain [] = True"
| "cssPlain (c # cs) =
     (if c \<in> set [0x22, 0x5C, 0x0A, 0x0D, 0x0C, 0x00] then False
      else if 0xD800 \<le> c \<and> c \<le> 0xDBFF then
        (case cs of
           [] \<Rightarrow> False
         | d # ds \<Rightarrow> 0xDC00 \<le> d \<and> d \<le> 0xDFFF \<and> cssPlain ds)
      else if 0xDC00 \<le> c \<and> c \<le> 0xDFFF then False
      else cssPlain cs)"

text \<open>\<open>document.querySelector('input.slider[data-feat="nm"]')\<close>: the first slider in
  document order whose \<open>data-feat\<close> attribute is \<open>nm\<close>.\<close>

definition querySlider :: "env \<Rightarrow> slider list \<Rightarrow> ustring \<Rightarrow> selResult" where
  "querySlider ev ss nm =
     (if cssPlain nm then
        (case findIndex (\<lambda>s. feat s = Some nm) ss of None \<Rightarrow> NoMatch | Some i \<Rightarrow> Match i)
      else
        (case otherSelector ev nm of
           Match i \<Rightarrow> if i < length ss then Match i else NoMatch
         | r \<Rightarrow> r))"

text \<open>Assigning to \<open>slider.value\<close> stores the string of the value, the empty string for
  \<open>null\<close>.\<close>

definition domString :: "jsval \<Rightarrow> ustring option" where
  "domString v = (case v of Null \<Rightarrow> Some [] | _ \<Rightarrow> toStringJS v)"

definition correctOne :: "env \<Rightarrow> jsval \<Rightarrow> page \<Rightarrow> outcome" where
  "correctOne ev item p =
     (case getProp item (js ''name'') of
        None \<Rightarrow> Threw p
      | Some nv \<Rightarrow>
          (case toStringJS nv of
             None \<Rightarrow> Threw p
           | Some nm \<Rightarrow>
               (case querySlider ev (sliders p) nm of
                  SyntaxError \<Rightarrow> Threw p
                | NoMatch \<Rightarrow> Done p
                | Match i \<Rightarrow>
                    (case getProp item (js ''value'') of
                       None \<Rightarrow> Threw p
                     | Some vv \<Rightarrow>
                         (case domString vv of
                            None \<Rightarrow> Threw p
                          | Some v \<Rightarrow>
                              let s1 = applyLimitsFromMap ((sliders p ! i)\<lparr>svalue := v\<rparr>);
                                  p1 = p\<lparr>sliders := (sliders p)[i := s1]\<rparr>
                              in Done (case findValueSpanForInput s1 of
                                         None \<Rightarrow> p1
                                       | Some j \<Rightarrow> p1\<lparr>spans := (spans p1)[j := svalue s1]\<rparr>))))))"

fun correctAll :: "env \<Rightarrow> jsval list \<Rightarrow> page \<Rightarrow> outcome" where
  "correctAll ev [] p = Done p"
| "correctAll ev (item # items) p =
     (case correctOne ev item p of
        Threw q \<Rightarrow> Threw q
      | Done q \<Rightarrow> correctAll ev items q)"

definition applyCorrections :: "env \<Rightarrow> jsval \<Rightarrow> page \<Rightarrow> outcome" where
  "applyCorrections ev data p =
     (case getProp data (js ''top_features_values'') of
        None \<Rightarrow> Threw p
      | Some tfv \<Rightarrow>
          (case tfv of
             Arr items \<Rightarrow> if truthy tfv then correctAll ev items p else Done p
           | _ \<Rightarrow> Done p))"

definition andThen :: "outcome \<Rightarrow> (page \<Rightarrow> outcome) \<Rightarrow> outcome" where
  "andThen r f = (case r of Threw q \<Rightarrow> Threw q | Done q \<Rightarrow> f q)"

text \<open>The body of the \<open>try\<close> block, from the answer of \<open>fetch\<close> on.\<close>

definition tryBody :: "env \<Rightarrow> response \<Rightarrow> page \<Rightarrow> outcome" where
  "tryBody ev resp p =
     (case resp of
        NetworkError \<Rightarrow> Threw p
      | Response ok status b \<Rightarrow>
          if \<not> ok then Threw p
          else
            (case b of
               BadJson \<Rightarrow> Threw p
             | Json data \<Rightarrow>
                 andThen (andThen (updateResult ev data p) (updateSuggestions data))
                   (applyCorrections ev data)))"

text \<open>
  The click handler is an \<open>async\<close> function. \<open>clickBegin\<close> is what runs at the click, up
  to the \<open>await\<close> of \<open>fetch\<close>; its third component tells whether a request is now in
  flight. \<open>clickResume\<close> is what runs when the request has come back, on the document as
  it is then: the rest of \<open>try\<close>, \<open>catch\<close> and \<open>finally\<close>. \<open>BASE_INPUTS\<close> is \<open>None\<close>
  when \<open>typeof BASE_INPUTS\<close> is \<open>"undefined"\<close>.
\<close>

definition clickBegin :: "jsval option \<Rightarrow> page \<Rightarrow> page \<times> effect list \<times> bool" where
  "clickBegin base p =
     (let modified = collectModified (sliders p)
      in case base of
           None \<Rightarrow>
             (p, [ConsoleWarn (js ''BASE_INPUTS is not defined on page. Cannot send base_inputs.''),
                  Alert (js ''Base input values missing '' @ emDash @ js '' update cannot run.'')], False)
         | Some b \<Rightarrow>
             (p\<lparr>btnDisabled := True, btnText := js ''Updating...''\<rparr>,
              [Fetch (js ''/predict'') b modified], True))"

definition clickResume :: "env \<Rightarrow> response \<Rightarrow> page \<Rightarrow> page \<times> effect list" where
  "clickResume ev resp p =
     (let (q, caught) =
            (case tryBody ev resp p of
               Done q \<Rightarrow> (q, [])
             | Threw q \<Rightarrow>
                 (q, [ConsoleError (js ''Update failed:''),
                      Alert (js ''Failed to update prediction. Check server logs.'')]))
      in (q\<lparr>btnDisabled := False, btnText := js ''Update Prediction''\<rparr>, caught))"

definition clickHandler :: "env \<Rightarrow> jsval option \<Rightarrow> response \<Rightarrow> page \<Rightarrow> page \<times> effect list" where
  "clickHandler ev base resp p =
     (case clickBegin base p of
        (p1, tr1, pending) \<Rightarrow>
          if pending then (case clickResume ev resp p1 of (p2, tr2) \<Rightarrow> (p2, tr1 @ tr2))
          else (p1, tr1))"

section \<open>script.js: the tabbed form\<close>

text \<open>
  The form script stores strings, compares them and puts them into messages, and never
  looks into them; there a string is a \<open>string\<close>.

  The document as the form script sees it. \<open>panels\<close> and \<open>tabs\<close> are the node lists
  \<open>.tab-panel\<close> and \<open>.tab\<close> in document order. A panel has its \<open>id\<close>, the class
  \<open>active\<close> and the attribute \<open>aria-hidden\<close>; a tab has \<open>data-target\<close> (\<open>None\<close>
  when the attribute is absent, read as \<open>undefined\<close>), the class \<open>active\<close> and
  \<open>aria-selected\<close>.
\<close>

record panel =
  pid :: string
  pactive :: bool
  pariaHidden :: "string option"

record tab =
  ttarget :: "string option"
  tactive :: bool
  tariaSelected :: "string option"

text \<open>The \<open>small\<close> element next to a field: its text, \<open>data-original-text\<close> and the
  class \<open>error-message\<close>.\<close>

record small =
  stext :: string
  soriginalText :: "string option"
  serrorMessage :: bool

text \<open>The \<open>validity\<close> object the browser computes for a field.\<close>

record validity =
  valid :: bool
  valueMissing :: bool
  rangeUnderflow :: bool
  rangeOverflow :: bool
  badInput :: bool

text \<open>
  A field is an \<open>input\<close> or \<open>select\<close>. \<open>fsmall\<close> is what
  \<open>el.parentElement.querySelector("small")\<close> finds, an index into \<open>smalls\<close>; two
  fields under one parent share it. \<open>fpanels\<close> lists the \<open>.tab-panel\<close> ancestors of
  the field, nearest first, as indices into \<open>panels\<close>; \<open>finForm\<close> tells whether
  the field is inside the form.
\<close>

record field =
  fdisabled :: bool
  fvalidity :: validity
  fmin :: string
  fmax :: string
  finvalid :: bool
  fsmall :: "nat option"
  fpanels :: "nat list"
  finForm :: bool

text \<open>\<open>firstInputById i\<close> is \<open>document.getElementById(i)\<close> followed by
  \<open>querySelector("input, select")\<close>: \<open>None\<close> when no element has that id, \<open>Some None\<close>
  when the element holds no field. \<open>focused\<close> is the field that has the input focus.\<close>

record nav =
  panels :: "panel list"
  tabs :: "tab list"
  controls :: "field list"
  smalls :: "small list"
  focused :: "nat option"
  firstInputById :: "string \<Rightarrow> nat option option"

definition boolString :: "bool \<Rightarrow> string" where
  "boolString b = (if b then ''true'' else ''false'')"

text \<open>\<open>focus()\<close> on a field moves the focus unless the field is disabled.\<close>

definition focusField :: "nat \<Rightarrow> nav \<Rightarrow> nav" where
  "focusField i st =
     (if i < length (controls st) \<and> \<not> fdisabled (controls st ! i) then st\<lparr>focused := Some i\<rparr> else st)"

text \<open>The argument is \<open>None\<close> for \<open>undefined\<close>, which is what the \<open>data-target\<close> of a
  tab or button without that attribute reads as.\<close>

definition showPanelById :: "nav \<Rightarrow> string option \<Rightarrow> nav" where
  "showPanelById st targetId =
     (let st1 = st\<lparr>panels :=
                   map (\<lambda>p. let isActive = (Some (pid p) = targetId)
                             in p\<lparr>pactive := isActive, pariaHidden := Some (boolString (\<not> isActive))\<rparr>)
                       (panels st)\<rparr>;
          st2 = st1\<lparr>tabs :=
                   map (\<lambda>t. let isActive = (ttarget t = targetId)
                             in t\<lparr>tactive := isActive, tariaSelected := Some (boolString isActive)\<rparr>)
                       (tabs st1)\<rparr>
      in case firstInputById st2 (case targetId of None \<Rightarrow> ''undefined'' | Some t \<Rightarrow> t) of
           None \<Rightarrow> st2
         | Some None \<Rightarrow> st2
         | Some (Some i) \<Rightarrow> focusField i st2)"

definition showTabIndex :: "nav \<Rightarrow> int \<Rightarrow> nav" where
  "showTabIndex st index =
     (if index < 0 \<or> index \<ge> int (length (panels st)) then st
      else showPanelById st (Some (pid (panels st ! nat index))))"

definition strTruthy :: "string option \<Rightarrow> bool" where
  "strTruthy v = (case v of None \<Rightarrow> False | Some t \<Rightarrow> t \<noteq> [])"

definition showError :: "nav \<Rightarrow> nat \<Rightarrow> string \<Rightarrow> nav" where
  "showError st i message =
     (let st1 = st\<lparr>controls := (controls st)[i := (controls st ! i)\<lparr>finvalid := True\<rparr>]\<rparr>
      in case fsmall (controls st ! i) of
           None \<Rightarrow> st1
         | Some j \<Rightarrow>
             let sm = smalls st1 ! j;
                 sm1 = (if \<not> strTruthy (soriginalText sm) then sm\<lparr>soriginalText := Some (stext sm)\<rparr>
                        else sm)
             in st1\<lparr>smalls := (smalls st1)[j := sm1\<lparr>stext := message, serrorMessage := True\<rparr>]\<rparr>)"

definition clearError :: "nav \<Rightarrow> nat \<Rightarrow> nav" where
  "clearError st i =
     (let st1 = st\<lparr>controls := (controls st)[i := (controls st ! i)\<lparr>finvalid := False\<rparr>]\<rparr>
      in case fsmall (controls st ! i) of
           None \<Rightarrow> st1
         | Some j \<Rightarrow>
             let sm = smalls st1 ! j
             in (case soriginalText sm of
                   None \<Rightarrow> st1
                 | Some orig \<Rightarrow>
                     if orig \<noteq> [] then
                       st1\<lparr>smalls := (smalls st1)[j := sm\<lparr>stext := orig, serrorMessage := False\<rparr>]\<rparr>
                     else st1))"

definition validateInput :: "nav \<Rightarrow> nat \<Rightarrow> bool \<times> nav" where
  "validateInput st i =
     (let st1 = clearError st i;
          el = controls st1 ! i
      in if fdisabled el then (True, st1)
         else
           let v = fvalidity el
           in if \<not> valid v then
                (False,
                 if valueMissing v then showError st1 i ''This field is required.''
                 else if rangeUnderflow v then
                   showError st1 i (''Value must be at least '' @ fmin el @ ''.'')
                 else if rangeOverflow v then
                   showError st1 i (''Value cannot be more than '' @ fmax el @ ''.'')
                 else if badInput v then showError st1 i ''Please enter a valid number.''
                 else showError st1 i ''The value you entered is invalid.'')
              else (True, st1))"

text \<open>\<open>querySelectorAll("input:not([disabled]), select:not([disabled])")\<close> on a panel and
  on the form: the enabled fields below it, in document order.\<close>

definition panelFields :: "nav \<Rightarrow> nat \<Rightarrow> nat list" where
  "panelFields st p =
     filter (\<lambda>i. p \<in> set (fpanels (controls st ! i)) \<and> \<not> fdisabled (controls st ! i))
       [0 ..< length (controls st)]"

definition formFields :: "nav \<Rightarrow> nat list" where
  "formFields st =
     filter (\<lambda>i. finForm (controls st ! i) \<and> \<not> fdisabled (controls st ! i)) [0 ..< length (controls st)]"

text \<open>\<open>Array.prototype.every\<close> with \<open>validateInput\<close> as the test: it stops at the first
  field for which the test is false.\<close>

fun everyValid :: "nav \<Rightarrow> nat list \<Rightarrow> bool \<times> nav" where
  "everyValid st [] = (True, st)"
| "everyValid st (i # rest) =
     (case validateInput st i of
        (ok, st1) \<Rightarrow> if ok then everyValid st1 rest else (False, st1))"

definition validatePanel :: "nav \<Rightarrow> nat \<Rightarrow> bool \<times> nav" where
  "validatePanel st p = everyValid st (panelFields st p)"

subsection \<open>The listeners\<close>

text \<open>A click inside tab number \<open>t\<close> of the tab bar.\<close>

definition tabClick :: "nav \<Rightarrow> nat \<Rightarrow> nav" where
  "tabClick st t = showPanelById st (ttarget (tabs st ! t))"

text \<open>A click inside a \<open>.next-btn\<close>: \<open>nbPanel\<close> is its nearest \<open>.tab-panel\<close> ancestor and
  \<open>nbTarget\<close> its \<open>data-target\<close>. Without such an ancestor \<open>validatePanel(null)\<close>
  throws and the handler ends there.\<close>

record nextBtn =
  nbPanel :: "nat option"
  nbTarget :: "string option"

definition nextClick :: "nav \<Rightarrow> nextBtn \<Rightarrow> nav" where
  "nextClick st b =
     (case nbPanel b of
        None \<Rightarrow> st
      | Some p \<Rightarrow>
          (case validatePanel st p of
             (ok, st1) \<Rightarrow> if ok then showPanelById st1 (nbTarget b) else st1))"

text \<open>The \<open>submit\<close> listener; the second component tells whether \<open>preventDefault\<close> was
  called.\<close>

fun submitLoop :: "nav \<Rightarrow> nat list \<Rightarrow> nav \<times> bool" where
  "submitLoop st [] = (st, False)"
| "submitLoop st (i # rest) =
     (case validateInput st i of
        (ok, st1) \<Rightarrow>
          if \<not> ok then
            (case fpanels (controls st1 ! i) of
               [] \<Rightarrow> (st1, True)
             | q # _ \<Rightarrow> (showPanelById st1 (Some (pid (panels st1 ! q))), True))
          else submitLoop st1 rest)"

definition submit :: "nav \<Rightarrow> nav \<times> bool" where
  "submit st = submitLoop st (formFields st)"

definition activeCount :: "nav \<Rightarrow> nat" where
  "activeCount st = length (filter pactive (panels st))"

section \<open>Notions used to state the properties\<close>

text \<open>
  The numbers that are binary64 values, in canonical form: zero, or an odd significand
  of at most 53 bits at an exponent from -1074 on, below \<open>2^1024\<close> in size.
\<close>

definition isDouble :: "jsnum \<Rightarrow> bool" where
  "isDouble x = (case x of
       Fin m e \<Rightarrow>
         (m = 0 \<and> e = 0)
         \<or> (odd m \<and> \<bar>m\<bar> < 2 ^ 53 \<and> - 1074 \<le> e \<and> bitLength \<bar>m\<bar> + e \<le> 1024)
     | _ \<Rightarrow> True)"

definition isFetch :: "effect \<Rightarrow> bool" where
  "isFetch e = (case e of Fetch _ _ _ \<Rightarrow> True | _ \<Rightarrow> False)"

fun pageOf :: "outcome \<Rightarrow> page" where
  "pageOf (Done p) = p"
| "pageOf (Threw p) = p"

text \<open>The name a correction item carries, as the selector is built from it: the string
  of \<open>item.name\<close>, when reading and converting it does not throw.\<close>

definition itemName :: "jsval \<Rightarrow> ustring option" where
  "itemName item = (case getProp item (js ''name'') of None \<Rightarrow> None | Some nv \<Rightarrow> toStringJS nv)"

definition plainNames :: "jsval list \<Rightarrow> bool" where
  "plainNames items =
     list_all (\<lambda>item. case itemName item of None \<Rightarrow> True | Some nm \<Rightarrow> cssPlain nm) items"

text \<open>The corrections a response carries: the elements of \<open>top_features_values\<close> when
  the body is JSON and that property is an array.\<close>

definition correctionItems :: "response \<Rightarrow> jsval list" where
  "correctionItems resp =
     (case resp of
        Response ok status (Json data) \<Rightarrow>
          (case getProp data (js ''top_features_values'') of Some (Arr items) \<Rightarrow> items | _ \<Rightarrow> [])
      | _ \<Rightarrow> [])"

text \<open>Of a list of fields, those that come before the first invalid one, and that one.\<close>

definition firstFailurePrefix :: "nav \<Rightarrow> nat list \<Rightarrow> nat list" where
  "firstFailurePrefix st fs =
     takeWhile (\<lambda>i. valid (fvalidity (controls st ! i))) fs
       @ take 1 (dropWhile (\<lambda>i. valid (fvalidity (controls st ! i))) fs)"

text \<open>Every panel a field names as an ancestor is one of the panels.\<close>

definition refsInRange :: "nav \<Rightarrow> bool" where
  "refsInRange st =
     list_all (\<lambda>f. list_all (\<lambda>q. q < length (panels st)) (fpanels f)) (controls st)"

subsection \<open>Concrete documents\<close>

definition mkSlider :: "ustring option \<Rightarrow> ustring \<Rightarrow> ustring \<Rightarrow> ustring \<Rightarrow> ustring \<Rightarrow> ustring \<Rightarrow> slider" where
  "mkSlider f i lo hi st v =
     \<lparr> feat = f, sid = i, sname = [], smin = lo, smax = hi, sstep = st, svalue = v,
       valueSpan = None \<rparr>"

text \<open>An age slider whose author narrowed the range to 30..90, one whose author widened
  it to 0..300, one with a step that is no number, and the \<open>thalach\<close> slider of the
  spec's scenario.\<close>

definition ageNarrow :: slider where
  "ageNarrow = mkSlider (Some (js ''age'')) [] (js ''30'') (js ''90'') (js ''1'') (js ''50'')"

definition ageWide :: slider where
  "ageWide = mkSlider (Some (js ''age'')) [] (js ''0'') (js ''300'') (js ''1'') (js ''50'')"

definition ageBadStep :: slider where
  "ageBadStep = mkSlider (Some (js ''age'')) [] (js ''18'') (js ''100'') (js ''abc'') (js ''50'')"

definition thalachSlider :: slider where
  "thalachSlider = mkSlider (Some (js ''thalach'')) [] [] (js ''9999'') [] (js ''250'')"

definition restingSlider :: slider where
  "restingSlider = mkSlider (Some (js ''trestbps'')) [] [] [] [] (js ''500'')"

text \<open>A results page with an age slider that carries \<open>data-feat\<close> and a BMI slider that
  is known by its id only.\<close>

definition resultsPage :: page where
  "resultsPage =
     \<lparr> sliders = [mkSlider (Some (js ''age'')) [] (js ''18'') (js ''100'') (js ''1'') (js ''50''),
                  mkSlider None (js ''bmi'') (js ''10'') (js ''60'') (js ''0.1'') (js ''22.5'')],
       spans = [],
       btnDisabled = False,
       btnText = js ''Update Prediction'',
       finalResult = Some (js ''41.0%''),
       prediction = None,
       suggestions = Some [] \<rparr>"

definition corrections :: "jsval list" where
  "corrections =
     [Obj [(js ''name'', Str (js ''age'')), (js ''value'', Num (decimal 70 0))],
      Obj [(js ''name'', Str (js ''bmi'')), (js ''value'', Num (decimal 30 0))]]"

definition correctionResponse :: response where
  "correctionResponse = Response True 200 (Json (Obj [(js ''top_features_values'', Arr corrections)]))"

definition noEnv :: env where
  "noEnv = \<lparr> percentText = (\<lambda>v. Some (js ''0.0'')), otherSelector = (\<lambda>nm. SyntaxError) \<rparr>"

text \<open>
  A correction whose name holds double quotes: \<open>zzz"],input.slider[id="bmi\<close>. Pasted
  into the selector it gives \<open>input.slider[data-feat="zzz"],input.slider[id="bmi"]\<close>,
  and \<open>listEnv\<close> answers for it as \<open>document.querySelector\<close> does on the results page:
  with the BMI slider, the second of the two.
\<close>

definition quotedName :: ustring where
  "quotedName = js ''zzz'' @ [0x22] @ js ''],input.slider[id='' @ [0x22] @ js ''bmi''"

definition quotedResponse :: response where
  "quotedResponse =
     Response True 200
       (Json (Obj [(js ''top_features_values'',
                    Arr [Obj [(js ''name'', Str quotedName), (js ''value'', Num (decimal 30 0))]])]))"

definition listEnv :: env where
  "listEnv =
     \<lparr> percentText = (\<lambda>v. Some (js ''0.0'')),
       otherSelector = (\<lambda>nm. if nm = quotedName then Match 1 else SyntaxError) \<rparr>"

text \<open>
  A form of two panels and three tabs; the third tab names a panel \<open>step3\<close> that does
  not exist. Panel \<open>step1\<close> is open and holds two enabled fields, both invalid and with
  no error shown yet. Panel \<open>step2\<close> holds one disabled field that still shows an error.
\<close>

definition mkValidity :: "bool \<Rightarrow> bool \<Rightarrow> bool \<Rightarrow> validity" where
  "mkValidity ok missing tooLow =
     \<lparr> valid = ok, valueMissing = missing, rangeUnderflow = tooLow, rangeOverflow = False,
       badInput = False \<rparr>"

definition wizard :: nav where
  "wizard =
     \<lparr> panels = [\<lparr> pid = ''step1'', pactive = True, pariaHidden = Some ''false'' \<rparr>,
                 \<lparr> pid = ''step2'', pactive = False, pariaHidden = Some ''true'' \<rparr>],
       tabs = [\<lparr> ttarget = Some ''step1'', tactive = True, tariaSelected = Some ''true'' \<rparr>,
               \<lparr> ttarget = Some ''step2'', tactive = False, tariaSelected = Some ''false'' \<rparr>,
               \<lparr> ttarget = Some ''step3'', tactive = False, tariaSelected = Some ''false'' \<rparr>],
       controls =
         [\<lparr> fdisabled = False, fvalidity = mkValidity False True False, fmin = ''18'',
            fmax = ''100'', finvalid = False, fsmall = Some 0, fpanels = [0], finForm = True \<rparr>,
          \<lparr> fdisabled = False, fvalidity = mkValidity False False True, fmin = ''10'',
            fmax = ''60'', finvalid = False, fsmall = Some 1, fpanels = [0], finForm = True \<rparr>,
          \<lparr> fdisabled = True, fvalidity = mkValidity True False False, fmin = ''0'',
            fmax = ''60'', finvalid = True, fsmall = Some 2, fpanels = [1], finForm = True \<rparr>],
       smalls =
         [\<lparr> stext = ''Age in years'', soriginalText = None, serrorMessage = False \<rparr>,
          \<lparr> stext = ''Body mass index'', soriginalText = None, serrorMessage = False \<rparr>,
          \<lparr> stext = ''This field is required.'', soriginalText = Some ''Cigarettes per day'',
            serrorMessage = True \<rparr>],
       focused = Some 0,
       firstInputById =
         (\<lambda>i. if i = ''step1'' then Some (Some 0) else if i = ''step2'' then Some (Some 2)
               else None) \<rparr>"

text \<open>A document in which two panels carry the same id.\<close>

definition twinPanels :: nav where
  "twinPanels =
     \<lparr> panels = [\<lparr> pid = ''a'', pactive = True, pariaHidden = Some ''false'' \<rparr>,
                 \<lparr> pid = ''b'', pactive = False, pariaHidden = Some ''true'' \<rparr>,
                 \<lparr> pid = ''b'', pactive = False, pariaHidden = Some ''true'' \<rparr>],
       tabs = [],
       controls = [],
       smalls = [],
       focused = None,
       firstInputById = (\<lambda>i. None) \<rparr>"

section \<open>Reading numbers and keys\<close>

text \<open>
  A numeral is read as the nearest binary64 value: seventeen digits that differ from 18
  by less than half a unit in the last place are 18, a numeral below the least positive
  number is 0, and one above the greatest is \<open>Infinity\<close>. A tie goes to the even
  significand. White space before the numeral is skipped, the no-break space included,
  and what follows the numeral is ignored.
\<close>

lemma parseFloat_rounds:
  "parseFloat (js ''18.000000000000001'') = decimal 18 0
   \<and> parseFloat (js ''1e-330'') = decimal 0 0
   \<and> parseFloat (js ''2e308'') = PInf
   \<and> parseFloat (js ''9007199254740993'') = decimal 9007199254740992 0
   \<and> parseFloat (js ''9007199254740995'') = decimal 9007199254740996 0"
  by code_simp

lemma parseFloat_prefix:
  "parseFloat ([0xA0, 0x2003, 0xFEFF] @ js ''50'') = decimal 50 0
   \<and> parseFloat (js '' -.5e1px'') = decimal (- 5) 0
   \<and> parseFloat (js ''1.e'') = decimal 1 0
   \<and> parseFloat (js ''-Infinity8'') = NInf
   \<and> parseFloat (js ''.'') = NaN
   \<and> parseFloat [] = NaN"
  by code_simp

text \<open>A number is printed with the fewest digits that read back as that number.\<close>

lemma numToString_shortest:
  "numToString (decimal 1 (- 1)) = js ''0.1''
   \<and> numToString (decimal 225 (- 1)) = js ''22.5''
   \<and> numToString (parseFloat (js ''18.000000000000001'')) = js ''18''
   \<and> numToString (decimal 1 21) = js ''1e+21''
   \<and> numToString (decimal (- 15) (- 8)) = js ''-1.5e-7''"
  by code_simp

text \<open>
  Lower-casing turns the Kelvin sign into \<open>k\<close> and the dotted capital I into \<open>i\<close>, so
  a key spelled with one of them resolves like the key spelled in ASCII.
\<close>

lemma canonicalKey_unicode:
  "canonicalKey (js ''oldpea'' @ [0x212A]) = js ''oldpeak''
   \<and> canonicalKey (js ''ag'' @ [0x212A] @ js ''e'') = js ''agke''
   \<and> LIMITS (js ''agke'') = Missing
   \<and> canonicalKey (js ''bm'' @ [0x0130]) = js ''bmi''
   \<and> canonicalKey ([0xA0] @ js ''Resting BP (mm Hg)'') = js ''restingbps''
   \<and> canonicalKey (js ''Max-Heart-Rate'') = js ''maxheartrate''"
  by code_simp

section \<open>Printing a number and reading it back\<close>

subsection \<open>Rounding depends on the value of the fraction only\<close>

lemma bitLength_bounds:
  "0 < n \<Longrightarrow> 1 \<le> bitLength n \<and> 2 ^ nat (bitLength n - 1) \<le> n \<and> n < 2 ^ nat (bitLength n)"
proof (induction n rule: bitLength.induct)
  case (1 n)
  show ?case
  proof (cases "n = 1")
    case True
    have "bitLength 1 = 1" by (simp add: bitLength.simps [of 1] bitLength.simps [of 0])
    with True show ?thesis by simp
  next
    case False
    with "1.prems" have h: "0 < n div 2" by simp
    from "1.prems" have n0: "\<not> n \<le> 0" by simp
    define b where "b = bitLength (n div 2)"
    from "1.IH" [OF n0 h] have ih: "1 \<le> b" "2 ^ nat (b - 1) \<le> n div 2" "n div 2 < 2 ^ nat b"
      by (simp_all add: b_def)
    have bl: "bitLength n = 1 + b" using n0 by (simp add: bitLength.simps [of n] b_def)
    from ih(1) have e: "nat b = Suc (nat (b - 1))" by simp
    have lo: "2 ^ nat b \<le> n"
    proof -
      have "(2::int) ^ nat b = 2 * 2 ^ nat (b - 1)" by (simp add: e)
      also have "\<dots> \<le> 2 * (n div 2)" using ih(2) by simp
      also have "\<dots> \<le> n" by simp
      finally show ?thesis .
    qed
    have hi: "n < 2 ^ nat (1 + b)"
    proof -
      have "n < 2 * (n div 2) + 2" by simp
      also have "\<dots> \<le> 2 * 2 ^ nat b" using ih(3) by simp
      also have "\<dots> = 2 ^ nat (1 + b)" using ih(1) by (simp add: nat_add_distrib)
      finally show ?thesis .
    qed
    from ih(1) lo hi show ?thesis by (simp add: bl)
  qed
qed

lemma atLeastPow_step:
  assumes "0 \<le> n" "0 \<le> d" "atLeastPow n d (l + 1)"
  shows "atLeastPow n d l"
proof (cases "0 \<le> l")
  case True
  then have e: "nat (l + 1) = Suc (nat l)" "nat (- (l + 1)) = 0" "nat (- l) = 0" by simp_all
  from assms(3) have "d * 2 ^ Suc (nat l) \<le> n * 2 ^ 0" unfolding atLeastPow_def e .
  then have "d * (2 * 2 ^ nat l) \<le> n" by simp
  moreover have "d * 2 ^ nat l \<le> d * (2 * 2 ^ nat l)" using assms(2) by (simp add: mult_left_mono)
  ultimately have "d * 2 ^ nat l \<le> n * 2 ^ 0" by simp
  then show ?thesis unfolding atLeastPow_def e .
next
  case False
  then have e: "nat (l + 1) = 0" "nat l = 0" "nat (- l) = Suc (nat (- (l + 1)))" by simp_all
  define j where "j = nat (- (l + 1))"
  from assms(3) have "d * 2 ^ 0 \<le> n * 2 ^ j" unfolding atLeastPow_def e(1) j_def .
  moreover have "n * 2 ^ j \<le> n * (2 * 2 ^ j)"
    using assms(1) by (simp add: mult_left_mono)
  ultimately have "d * 2 ^ 0 \<le> n * 2 ^ Suc j" by simp
  then show ?thesis unfolding atLeastPow_def e(2,3) j_def .
qed

lemma atLeastPow_mono:
  assumes "0 \<le> n" "0 \<le> d" "l \<le> l'" "atLeastPow n d l'"
  shows "atLeastPow n d l"
proof -
  have "atLeastPow n d (l' - int j)" for j
  proof (induction j)
    case 0
    with assms(4) show ?case by simp
  next
    case (Suc j)
    have "atLeastPow n d (l' - int (Suc j) + 1)" using Suc by (simp add: algebra_simps)
    from atLeastPow_step [OF assms(1,2) this] show ?case .
  qed
  from this [of "nat (l' - l)"] assms(3) show ?thesis by simp
qed

lemma binaryOrder_unique:
  assumes "0 \<le> n" "0 \<le> d"
    and "atLeastPow n d l" "\<not> atLeastPow n d (l + 1)"
    and "atLeastPow n d l'" "\<not> atLeastPow n d (l' + 1)"
  shows "l = l'"
proof (rule ccontr)
  assume "l \<noteq> l'"
  then consider "l + 1 \<le> l'" | "l' + 1 \<le> l" by linarith
  then show False
  proof cases
    case 1
    from atLeastPow_mono [OF assms(1,2) 1 assms(5)] assms(4) show False by simp
  next
    case 2
    from atLeastPow_mono [OF assms(1,2) 2 assms(3)] assms(6) show False by simp
  qed
qed

lemma cross_le:
  fixes n d n' d' a b :: int
  assumes "0 < d" "0 < d'" "n * d' = n' * d"
  shows "(d * a \<le> n * b) = (d' * a \<le> n' * b)"
proof -
  have "(d * a \<le> n * b) = (d' * (d * a) \<le> d' * (n * b))"
    using assms(2) by (simp only: mult_le_cancel_left_pos)
  also have "d' * (n * b) = d * (n' * b)" using assms(3) by (simp add: algebra_simps)
  also have "d' * (d * a) = d * (d' * a)" by (simp add: algebra_simps)
  also have "(d * (d' * a) \<le> d * (n' * b)) = (d' * a \<le> n' * b)"
    using assms(1) by (simp only: mult_le_cancel_left_pos)
  finally show ?thesis .
qed

lemma atLeastPow_cross:
  assumes "0 < d" "0 < d'" "n * d' = n' * d"
  shows "atLeastPow n d l = atLeastPow n' d' l"
  unfolding atLeastPow_def by (rule cross_le [OF assms])

lemma binaryOrder_props:
  assumes n: "0 < n" and d: "0 < d"
  shows "atLeastPow n d (binaryOrder n d) \<and> \<not> atLeastPow n d (binaryOrder n d + 1)"
proof -
  define bn where "bn = bitLength n"
  define bd where "bd = bitLength d"
  from bitLength_bounds [OF n] have N: "1 \<le> bn" "2 ^ nat (bn - 1) \<le> n" "n < 2 ^ nat bn"
    by (simp_all add: bn_def)
  from bitLength_bounds [OF d] have D: "1 \<le> bd" "2 ^ nat (bd - 1) \<le> d" "d < 2 ^ nat bd"
    by (simp_all add: bd_def)
  define l0 where "l0 = bn - bd"
  have up: "\<not> atLeastPow n d (l0 + 1)"
  proof (cases "0 \<le> l0 + 1")
    case True
    then have e: "nat (- (l0 + 1)) = 0" "nat bn = nat (bd - 1) + nat (l0 + 1)"
      using N(1) D(1) by (simp_all add: l0_def)
    have "n < 2 ^ nat (bd - 1) * 2 ^ nat (l0 + 1)" using N(3) by (simp add: e(2) power_add)
    also have "\<dots> \<le> d * 2 ^ nat (l0 + 1)" using D(2) by (simp add: mult_right_mono)
    finally have "\<not> d * 2 ^ nat (l0 + 1) \<le> n * 2 ^ 0" by simp
    then show ?thesis unfolding atLeastPow_def e(1) .
  next
    case False
    then have e: "nat (l0 + 1) = 0" "nat (bd - 1) = nat bn + nat (- (l0 + 1))"
      using N(1) D(1) by (simp_all add: l0_def)
    define j where "j = nat (- (l0 + 1))"
    have "n * 2 ^ j < 2 ^ nat bn * 2 ^ j"
      using N(3) by (simp add: mult_strict_right_mono)
    also have "\<dots> = 2 ^ nat (bd - 1)" by (simp add: e(2) power_add j_def)
    also have "\<dots> \<le> d" by (rule D(2))
    finally have "\<not> d * 2 ^ 0 \<le> n * 2 ^ j" by simp
    then show ?thesis unfolding atLeastPow_def e(1) j_def .
  qed
  have down: "atLeastPow n d (l0 - 1)"
  proof (cases "0 \<le> l0 - 1")
    case True
    then have e: "nat (- (l0 - 1)) = 0" "nat (bn - 1) = nat bd + nat (l0 - 1)"
      using N(1) D(1) by (simp_all add: l0_def)
    have "d * 2 ^ nat (l0 - 1) \<le> 2 ^ nat bd * 2 ^ nat (l0 - 1)"
      using D(3) by (simp add: mult_right_mono)
    also have "\<dots> = 2 ^ nat (bn - 1)" by (simp add: e(2) power_add)
    also have "\<dots> \<le> n" by (rule N(2))
    finally have "d * 2 ^ nat (l0 - 1) \<le> n * 2 ^ 0" by simp
    then show ?thesis unfolding atLeastPow_def e(1) .
  next
    case False
    then have e: "nat (l0 - 1) = 0" "nat bd = nat (bn - 1) + nat (- (l0 - 1))"
      using N(1) D(1) by (simp_all add: l0_def)
    define j where "j = nat (- (l0 - 1))"
    have "d \<le> 2 ^ nat (bn - 1) * 2 ^ j" using D(3) by (simp add: e(2) power_add j_def)
    also have "\<dots> \<le> n * 2 ^ j" using N(2) by (simp add: mult_right_mono)
    finally have "d * 2 ^ 0 \<le> n * 2 ^ j" by simp
    then show ?thesis unfolding atLeastPow_def e(1) j_def .
  qed
  have b: "binaryOrder n d = (if atLeastPow n d l0 then l0 else l0 - 1)"
    by (simp add: binaryOrder_def Let_def l0_def bn_def bd_def)
  show ?thesis
  proof (cases "atLeastPow n d l0")
    case True
    with b up show ?thesis by simp
  next
    case False
    with b down show ?thesis by simp
  qed
qed

lemma binaryOrder_cross:
  assumes "0 < n" "0 < d" "0 < n'" "0 < d'" "n * d' = n' * d"
  shows "binaryOrder n d = binaryOrder n' d'"
proof -
  note c = atLeastPow_cross [OF assms(2,4,5)]
  from binaryOrder_props [OF assms(1,2)]
  have a: "atLeastPow n d (binaryOrder n d)" "\<not> atLeastPow n d (binaryOrder n d + 1)" by simp_all
  from binaryOrder_props [OF assms(3,4)]
  have b: "atLeastPow n d (binaryOrder n' d')" "\<not> atLeastPow n d (binaryOrder n' d' + 1)"
    by (simp_all add: c)
  from assms(1,2) have "0 \<le> n" "0 \<le> d" by simp_all
  from binaryOrder_unique [OF this a b] show ?thesis .
qed

lemma div_cross:
  fixes a b a' b' :: int
  assumes "0 < b" "0 < b'" "a * b' = a' * b"
  shows "a div b = a' div b'"
proof -
  define q where "q = a div b"
  have dm: "a = b * q + a mod b" by (simp add: q_def)
  have r: "0 \<le> a mod b" "a mod b < b" using assms(1) by simp_all
  from dm r(1) have lo: "b * q \<le> a" by linarith
  from dm r(2) have hi: "a < b * (q + 1)" by (simp add: algebra_simps)
  from lo have lo': "b' * q \<le> a'"
    using cross_le [OF assms(1,2,3), of q 1] by simp
  have hi': "a' < b' * (q + 1)"
    using cross_le [OF assms(1,2,3), of "q + 1" 1] hi by simp
  have "a' div b' = q"
  proof (rule int_div_pos_eq)
    show "a' = b' * q + (a' - b' * q)" by simp
    show "0 \<le> a' - b' * q" using lo' by simp
    show "a' - b' * q < b'" using hi' by (simp add: algebra_simps)
  qed
  then show ?thesis by (simp add: q_def)
qed

lemma half_cross:
  fixes a b a' b' :: int
  assumes "0 < b" "0 < b'" "a * b' = a' * b"
  shows "(2 * (a mod b) < b) = (2 * (a' mod b') < b')"
    and "(2 * (a mod b) = b) = (2 * (a' mod b') = b')"
proof -
  define q where "q = a div b"
  from div_cross [OF assms] have q': "a' div b' = q" by (simp add: q_def)
  have m: "a mod b = a - b * q" by (simp add: q_def minus_mult_div_eq_mod)
  have m': "a' mod b' = a' - b' * q" using q' by (metis minus_mult_div_eq_mod)
  have le: "(b * (2 * q + 1) \<le> a * 2) = (b' * (2 * q + 1) \<le> a' * 2)"
    by (rule cross_le [OF assms])
  have ge: "(a * 2 \<le> b * (2 * q + 1)) = (a' * 2 \<le> b' * (2 * q + 1))"
  proof -
    have "(a * 2 \<le> b * (2 * q + 1)) = (b' * (a * 2) \<le> b' * (b * (2 * q + 1)))"
      using assms(2) by (simp only: mult_le_cancel_left_pos)
    also have "b' * (a * 2) = b * (a' * 2)" using assms(3) by (simp add: algebra_simps)
    also have "b' * (b * (2 * q + 1)) = b * (b' * (2 * q + 1))" by (simp add: algebra_simps)
    also have "(b * (a' * 2) \<le> b * (b' * (2 * q + 1))) = (a' * 2 \<le> b' * (2 * q + 1))"
      using assms(1) by (simp only: mult_le_cancel_left_pos)
    finally show ?thesis .
  qed
  have "(2 * (a mod b) < b) = (\<not> b * (2 * q + 1) \<le> a * 2)"
    unfolding m by (auto simp: algebra_simps)
  also have "\<dots> = (\<not> b' * (2 * q + 1) \<le> a' * 2)" by (simp only: le)
  also have "\<dots> = (2 * (a' mod b') < b')"
    unfolding m' by (auto simp: algebra_simps)
  finally show "(2 * (a mod b) < b) = (2 * (a' mod b') < b')" .
  have "(2 * (a mod b) = b) = (b * (2 * q + 1) \<le> a * 2 \<and> a * 2 \<le> b * (2 * q + 1))"
    unfolding m by (auto simp: algebra_simps)
  also have "\<dots> = (b' * (2 * q + 1) \<le> a' * 2 \<and> a' * 2 \<le> b' * (2 * q + 1))"
    by (simp only: le ge)
  also have "\<dots> = (2 * (a' mod b') = b')"
    unfolding m' by (auto simp: algebra_simps)
  finally show "(2 * (a mod b) = b) = (2 * (a' mod b') = b')" .
qed

text \<open>Two fractions of the same value round to the same number.\<close>

lemma nearest_cross:
  assumes "0 < n" "0 < d" "0 < n'" "0 < d'" "n * d' = n' * d"
  shows "nearest n d = nearest n' d'"
proof -
  define x where "x = max (binaryOrder n d - 52) (- 1074)"
  have x': "max (binaryOrder n' d' - 52) (- 1074) = x"
    by (simp add: x_def binaryOrder_cross [OF assms])
  define num den num' den' where "num = n * 2 ^ nat (- x)" and "den = d * 2 ^ nat x"
    and "num' = n' * 2 ^ nat (- x)" and "den' = d' * 2 ^ nat x"
  have p: "0 < den" "0 < den'" using assms(2,4) by (simp_all add: den_def den'_def)
  have c: "num * den' = num' * den"
    using assms(5) by (simp add: num_def den_def num'_def den'_def algebra_simps)
  note q = div_cross [OF p c]
  note h = half_cross [OF p c]
  from assms(1,3) have nz: "(n \<le> 0) = False" "(n' \<le> 0) = False" by simp_all
  have a: "nearest n d =
      (let q = num div den; r = num mod den;
           q' = (if 2 * r < den \<or> (2 * r = den \<and> even q) then q else q + 1)
       in if 971 < x \<or> (x = 971 \<and> q' = 2 ^ 53) then PInf else canonical q' x)"
    unfolding nearest_def nz if_False Let_def x_def num_def den_def ..
  have b: "nearest n' d' =
      (let q = num' div den'; r = num' mod den';
           q' = (if 2 * r < den' \<or> (2 * r = den' \<and> even q) then q else q + 1)
       in if 971 < x \<or> (x = 971 \<and> q' = 2 ^ 53) then PInf else canonical q' x)"
    unfolding nearest_def nz if_False Let_def x' num'_def den'_def ..
  show ?thesis unfolding a b Let_def q h ..
qed

subsection \<open>Binary64 values round to themselves\<close>

lemma nat_shift:
  fixes u v :: int
  assumes "u \<le> v"
  shows "nat (- u) + nat v = nat u + nat (- v) + nat (v - u)"
  using assms by linarith

lemma canonical_odd: "odd m \<Longrightarrow> canonical m e = Fin m e"
  by (auto simp: canonical.simps [of m e])

lemma canonical_zero: "canonical 0 e = Fin 0 0"
  by (simp add: canonical.simps [of 0 e])

lemma canonical_shift: "m \<noteq> 0 \<Longrightarrow> canonical (m * 2 ^ j) e = canonical m (e + int j)"
proof (induction j arbitrary: e)
  case 0
  then show ?case by simp
next
  case (Suc j)
  have "canonical (m * 2 ^ Suc j) e = canonical (m * 2 ^ Suc j div 2) (e + 1)"
    using Suc.prems by (subst canonical.simps) simp
  also have "m * 2 ^ Suc j div 2 = m * 2 ^ j" by simp
  also have "canonical (m * 2 ^ j) (e + 1) = canonical m (e + 1 + int j)"
    by (rule Suc.IH [OF Suc.prems])
  finally show ?case by (simp add: algebra_simps)
qed

lemma canonical_decompose:
  "0 < m \<Longrightarrow> \<exists>a j. odd a \<and> 0 < a \<and> m = a * 2 ^ j \<and> canonical m e = Fin a (e + int j)"
proof (induction m e rule: canonical.induct)
  case (1 m e)
  show ?case
  proof (cases "even m")
    case True
    with "1.prems" have h: "0 < m div 2" by (auto elim: evenE)
    from "1.prems" have nz: "m \<noteq> 0" by simp
    from "1.IH" [OF nz True h] obtain a j
      where a: "odd a" "0 < a" "m div 2 = a * 2 ^ j" "canonical (m div 2) (e + 1) = Fin a (e + 1 + int j)"
      by blast
    have c: "canonical m e = canonical (m div 2) (e + 1)"
      using nz True by (subst canonical.simps) simp
    from True a(3) have "m = a * 2 ^ Suc j" by (auto elim: evenE)
    with a c have "odd a \<and> 0 < a \<and> m = a * 2 ^ Suc j \<and> canonical m e = Fin a (e + int (Suc j))"
      by (simp add: algebra_simps)
    then show ?thesis by blast
  next
    case False
    with "1.prems" canonical_odd [OF False, of e] have "odd m \<and> 0 < m \<and> m = m * 2 ^ 0 \<and> canonical m e = Fin m (e + int 0)"
      by simp
    then show ?thesis by blast
  qed
qed

lemma bitLength_shift: "0 < a \<Longrightarrow> bitLength (a * 2 ^ j) = bitLength a + int j"
proof (induction j)
  case 0
  then show ?case by simp
next
  case (Suc j)
  from Suc.prems have "0 < a * 2 ^ Suc j" by (intro mult_pos_pos) simp_all
  then have p: "\<not> a * 2 ^ Suc j \<le> 0" by linarith
  have "bitLength (a * 2 ^ Suc j) = 1 + bitLength (a * 2 ^ Suc j div 2)"
    using p by (subst bitLength.simps) simp
  also have "a * 2 ^ Suc j div 2 = a * 2 ^ j" by simp
  finally show ?case using Suc by simp
qed

lemma bitLength_le:
  assumes "0 < a" "a < 2 ^ k"
  shows "bitLength a \<le> int k"
proof -
  from bitLength_bounds [OF assms(1)] have b: "1 \<le> bitLength a" "2 ^ nat (bitLength a - 1) \<le> a" by simp_all
  from b(2) assms(2) have "(2::int) ^ nat (bitLength a - 1) < 2 ^ k" by linarith
  then have "nat (bitLength a - 1) < k" by simp
  with b(1) show ?thesis by linarith
qed

lemma bitLength_power: "bitLength (2 ^ k) = int k + 1"
  using bitLength_shift [of 1 k] by (simp add: bitLength.simps [of 1] bitLength.simps [of 0])

text \<open>Shifting the comparison with a power of two by \<open>k\<close> places.\<close>

lemma atLeastPow_add:
  "atLeastPow n d (x + int k) = (2 ^ k * (d * 2 ^ nat x) \<le> n * 2 ^ nat (- x))"
proof -
  define p where "p = nat (- (x + int k))"
  have e: "nat (x + int k) + nat (- x) = k + nat x + p" unfolding p_def by linarith
  have "atLeastPow n d (x + int k) = (d * 2 ^ nat (x + int k) \<le> n * 2 ^ p)"
    by (simp add: atLeastPow_def p_def)
  also have "\<dots> = (d * 2 ^ nat (x + int k) * 2 ^ nat (- x) \<le> n * 2 ^ p * 2 ^ nat (- x))"
    by simp
  also have "d * 2 ^ nat (x + int k) * 2 ^ nat (- x) = (2 ^ k * (d * 2 ^ nat x)) * 2 ^ p"
  proof -
    have "d * 2 ^ nat (x + int k) * 2 ^ nat (- x) = d * 2 ^ (nat (x + int k) + nat (- x))"
      by (simp add: power_add)
    also have "\<dots> = d * 2 ^ (k + nat x + p)" by (simp only: e)
    also have "\<dots> = (2 ^ k * (d * 2 ^ nat x)) * 2 ^ p" by (simp add: power_add)
    finally show ?thesis .
  qed
  also have "n * 2 ^ p * 2 ^ nat (- x) = (n * 2 ^ nat (- x)) * 2 ^ p" by (simp add: algebra_simps)
  also have "((2 ^ k * (d * 2 ^ nat x)) * 2 ^ p \<le> (n * 2 ^ nat (- x)) * 2 ^ p)
             = (2 ^ k * (d * 2 ^ nat x) \<le> n * 2 ^ nat (- x))"
    by simp
  finally show ?thesis .
qed

text \<open>A fraction whose value is a binary64 value rounds to that value.\<close>

lemma nearest_exact:
  assumes a: "0 < a" "a < 2 ^ 53" and e: "- 1074 \<le> e" and top: "bitLength a + e \<le> 1024"
  shows "nearest (a * 2 ^ nat e) (2 ^ nat (- e)) = canonical a e"
proof -
  define n d where "n = a * 2 ^ nat e" and "d = (2::int) ^ nat (- e)"
  have np: "0 < n" and dp: "0 < d" using a(1) by (simp_all add: n_def d_def)
  define b where "b = bitLength a"
  from bitLength_bounds [OF a(1)] have B: "1 \<le> b" "2 ^ nat (b - 1) \<le> a" "a < 2 ^ nat b"
    by (simp_all add: b_def)
  from bitLength_le [OF a] have b53: "b \<le> 53" by (simp add: b_def)
  define l where "l = b - 1 + e"
  have lo: "atLeastPow n d l"
  proof -
    have s: "nat (- e) + nat l = nat e + nat (- l) + nat (b - 1)"
      using nat_shift [of e l] B(1) by (simp add: l_def)
    have "d * 2 ^ nat l = 2 ^ (nat e + nat (- l)) * 2 ^ nat (b - 1)"
      by (simp add: d_def power_add [symmetric] s)
    also have "\<dots> \<le> 2 ^ (nat e + nat (- l)) * a" using B(2) by (simp add: mult_left_mono)
    also have "\<dots> = n * 2 ^ nat (- l)" by (simp add: n_def power_add)
    finally show ?thesis by (simp add: atLeastPow_def)
  qed
  have hi: "\<not> atLeastPow n d (l + 1)"
  proof -
    have s: "nat (- e) + nat (l + 1) = nat e + nat (- (l + 1)) + nat b"
      using nat_shift [of e "l + 1"] B(1) by (simp add: l_def)
    have "n * 2 ^ nat (- (l + 1)) = 2 ^ (nat e + nat (- (l + 1))) * a" by (simp add: n_def power_add)
    also have "\<dots> < 2 ^ (nat e + nat (- (l + 1))) * 2 ^ nat b"
      using B(3) by (simp add: mult_strict_left_mono)
    also have "\<dots> = d * 2 ^ nat (l + 1)" by (simp add: d_def power_add [symmetric] s)
    finally have "\<not> d * 2 ^ nat (l + 1) \<le> n * 2 ^ nat (- (l + 1))" by simp
    then show ?thesis unfolding atLeastPow_def .
  qed
  from np dp have nn: "0 \<le> n" "0 \<le> d" by simp_all
  from binaryOrder_props [OF np dp]
  have "atLeastPow n d (binaryOrder n d)" "\<not> atLeastPow n d (binaryOrder n d + 1)" by simp_all
  from binaryOrder_unique [OF nn this lo hi] have bo: "binaryOrder n d = l" .
  define x where "x = max (l - 52) (- 1074)"
  have xe: "x \<le> e" using b53 e by (simp add: x_def l_def)
  have x971: "x \<le> 971" using top by (simp add: x_def l_def b_def)
  define q where "q = a * 2 ^ nat (e - x)"
  have s: "nat (- x) + nat e = nat x + nat (- e) + nat (e - x)"
    using nat_shift [OF xe] .
  have num: "n * 2 ^ nat (- x) = q * (d * 2 ^ nat x)"
  proof -
    have "n * 2 ^ nat (- x) = a * 2 ^ (nat (- x) + nat e)" by (simp add: n_def power_add)
    also have "\<dots> = a * 2 ^ (nat x + nat (- e) + nat (e - x))" by (simp only: s)
    also have "\<dots> = q * (d * 2 ^ nat x)" by (simp add: q_def d_def power_add)
    finally show ?thesis .
  qed
  have dx: "0 < d * 2 ^ nat x" using dp by simp
  have dv: "n * 2 ^ nat (- x) div (d * 2 ^ nat x) = q"
  proof -
    from dx have "d * 2 ^ nat x \<noteq> 0" by linarith
    then show ?thesis unfolding num by (rule nonzero_mult_div_cancel_right)
  qed
  have md: "n * 2 ^ nat (- x) mod (d * 2 ^ nat x) = 0" by (simp add: num)
  have no: "\<not> (971 < x \<or> (x = 971 \<and> q = 2 ^ 53))"
  proof
    assume "971 < x \<or> (x = 971 \<and> q = 2 ^ 53)"
    with x971 have x: "x = 971" and q: "q = 2 ^ 53" by simp_all
    have "bitLength q = b + int (nat (e - x))"
      unfolding q_def b_def by (rule bitLength_shift [OF a(1)])
    with xe have "bitLength q = b + e - x" by simp
    moreover have "bitLength q = 54" unfolding q using bitLength_power [of 53] by simp
    ultimately show False using top x by (simp add: b_def)
  qed
  from np have nz: "(n \<le> 0) = False" by simp
  from no have cond: "(971 < x \<or> (x = 971 \<and> q = 2 ^ 53)) = False" by simp
  from dx have half: "(2 * 0 < d * 2 ^ nat x \<or> (2 * 0 = d * 2 ^ nat x \<and> even q)) = True"
    by simp
  have "nearest n d = canonical q x"
    unfolding nearest_def nz if_False Let_def bo x_def [symmetric] dv md half if_True cond ..
  also have "\<dots> = canonical a (x + int (nat (e - x)))"
    unfolding q_def using a(1) by (intro canonical_shift) simp
  also have "x + int (nat (e - x)) = e" using xe by simp
  finally show ?thesis by (simp add: n_def d_def)
qed

lemma nearest_value:
  assumes "0 < n" "0 < d" and a: "0 < a" "a < 2 ^ 53" and e: "- 1074 \<le> e"
    and top: "bitLength a + e \<le> 1024"
    and v: "n * 2 ^ nat (- e) = a * 2 ^ nat e * d"
  shows "nearest n d = canonical a e"
proof -
  have "nearest n d = nearest (a * 2 ^ nat e) (2 ^ nat (- e))"
    using assms(1,2) a(1) v by (intro nearest_cross) simp_all
  with nearest_exact [OF a e top] show ?thesis by simp
qed

text \<open>What \<open>nearest\<close> answers is a binary64 value.\<close>

lemma nearest_isDouble:
  assumes dp: "0 < d"
  shows "isDouble (nearest n d)"
proof (cases "n \<le> 0")
  case True
  then show ?thesis by (simp add: nearest_def isDouble_def)
next
  case False
  then have np: "0 < n" by simp
  from False have nz: "(n \<le> 0) = False" by simp
  define l where "l = binaryOrder n d"
  define x where "x = max (l - 52) (- 1074)"
  define num den where "num = n * 2 ^ nat (- x)" and "den = d * 2 ^ nat x"
  define q where "q = num div den"
  define q' where "q' = (if 2 * (num mod den) < den \<or> (2 * (num mod den) = den \<and> even q) then q else q + 1)"
  have nr: "nearest n d = (if 971 < x \<or> (x = 971 \<and> q' = 2 ^ 53) then PInf else canonical q' x)"
    unfolding nearest_def nz if_False Let_def l_def [symmetric] x_def [symmetric]
      num_def [symmetric] den_def [symmetric] q_def [symmetric] q'_def [symmetric] ..
  have denp: "0 < den" using dp by (simp add: den_def)
  have nump: "0 \<le> num" using np by (simp add: num_def)
  have x1: "- 1074 \<le> x" and x2: "l + 1 \<le> x + 53" by (simp_all add: x_def)
  from binaryOrder_props [OF np dp] have "\<not> atLeastPow n d (l + 1)" by (simp add: l_def)
  with atLeastPow_mono [of n d "l + 1" "x + 53"] x2 np dp
  have "\<not> atLeastPow n d (x + int 53)" by auto
  then have "\<not> 2 ^ 53 * (d * 2 ^ nat x) \<le> n * 2 ^ nat (- x)" unfolding atLeastPow_add .
  then have lt: "num < 2 ^ 53 * den" by (simp add: num_def den_def)
  have dm: "num = den * q + num mod den" by (simp add: q_def)
  have r: "0 \<le> num mod den" "num mod den < den" using denp by simp_all
  have q0: "0 \<le> q" unfolding q_def using nump denp by (simp add: pos_imp_zdiv_nonneg_iff)
  have q53: "q < 2 ^ 53"
  proof (rule ccontr)
    assume "\<not> q < 2 ^ 53"
    then have "2 ^ 53 \<le> q" by simp
    then have "den * 2 ^ 53 \<le> den * q" using denp by (simp only: mult_le_cancel_left_pos)
    with dm r(1) lt show False by (simp add: mult.commute)
  qed
  have q'r: "0 \<le> q'" "q' \<le> 2 ^ 53" using q0 q53 by (simp_all add: q'_def)
  show ?thesis
  proof (cases "971 < x \<or> (x = 971 \<and> q' = 2 ^ 53)")
    case True
    with nr show ?thesis by (simp add: isDouble_def)
  next
    case no: False
    then have f: "(971 < x \<or> (x = 971 \<and> q' = 2 ^ 53)) = False" by simp
    have c: "nearest n d = canonical q' x" unfolding nr f if_False ..
    show ?thesis
    proof (cases "q' = 0")
      case True
      with c show ?thesis by (simp add: canonical_zero isDouble_def)
    next
      case False
      with q'r(1) have qp: "0 < q'" by simp
      from canonical_decompose [OF qp, of x] obtain a j
        where a: "odd a" "0 < a" "q' = a * 2 ^ j" "canonical q' x = Fin a (x + int j)" by blast
      have "a * 1 \<le> a * 2 ^ j" using a(2) by (intro mult_left_mono) simp_all
      with a(3) have aq: "a \<le> q'" by simp
      have a53: "a < 2 ^ 53"
      proof (rule ccontr)
        assume "\<not> a < 2 ^ 53"
        with aq q'r(2) have "a = 2 ^ 53" by simp
        with a(1) show False by simp
      qed
      have bl: "bitLength q' = bitLength a + int j"
        unfolding a(3) by (rule bitLength_shift [OF a(2)])
      have "bitLength q' + x \<le> 1024"
      proof (cases "q' = 2 ^ 53")
        case True
        with no have "x \<le> 970" by simp
        moreover from True have "bitLength q' = 54" using bitLength_power [of 53] by simp
        ultimately show ?thesis by simp
      next
        case False
        with q'r(2) have "q' < 2 ^ 53" by simp
        from bitLength_le [OF qp this] no show ?thesis by simp
      qed
      with bl have top: "bitLength a + (x + int j) \<le> 1024" by simp
      from a(2) have abs: "\<bar>a\<bar> = a" by simp
      from a(1) a53 x1 top show ?thesis
        unfolding c a(4) isDouble_def by (simp add: abs)
    qed
  qed
qed

lemma negate_isDouble: "isDouble (negate x) = isDouble x"
  by (cases x) (simp_all add: negate_def isDouble_def)

lemma decimal_isDouble: "isDouble (decimal m e)"
proof -
  have "isDouble (nearest (\<bar>m\<bar> * 10 ^ nat e) (10 ^ nat (- e)))"
    by (rule nearest_isDouble) simp
  then show ?thesis unfolding decimal_def Let_def by (simp only: negate_isDouble if_split) simp
qed

lemma isDouble_special: "isDouble NaN" "isDouble PInf" "isDouble NInf" "isDouble (Fin 0 0)"
  by (simp_all add: isDouble_def)

lemma parseFloat_isDouble: "isDouble (parseFloat s)"
  unfolding parseFloat_def Let_def
  by (simp add: isDouble_special decimal_isDouble negate_isDouble
        split: list.splits option.splits prod.splits)

subsection \<open>The digits printed\<close>

lemma nearest_zero: "nearest 0 d = Fin 0 0"
  by (simp add: nearest_def)

lemma decimal_nonneg: "0 \<le> s \<Longrightarrow> decimal s z = nearest (s * 10 ^ nat z) (10 ^ nat (- z))"
  by (simp add: decimal_def Let_def)

lemma canonical_pos_nonzero: "0 < a \<Longrightarrow> canonical a e \<noteq> Fin 0 0"
  using canonical_decompose [of a e] by auto

text \<open>The digits that \<open>shortest\<close> finds denote the number.\<close>

lemma shortest_denotes:
  "0 < a \<Longrightarrow> a < 2 ^ 53 \<Longrightarrow> - 1074 \<le> e \<Longrightarrow> bitLength a + e \<le> 1024 \<Longrightarrow>
   shortest a e n k = (s, k') \<Longrightarrow> 0 < s \<and> decimal s (n - k') = canonical a e"
proof (induction a e n k arbitrary: s k' rule: shortest.induct)
  case (1 m e n k)
  note mp = "1.prems"(1) and m53 = "1.prems"(2) and e = "1.prems"(3) and top = "1.prems"(4)
    and res = "1.prems"(5)
  define num den where "num = m * 2 ^ nat e * 10 ^ nat (k - n)"
    and "den = (2::int) ^ nat (- e) * 10 ^ nat (n - k)"
  define lo r where "lo = num div den" and "r = num mod den"
  define okLo okHi where "okLo = (decimal lo (n - k) = canonical m e)"
    and "okHi = (decimal (lo + 1) (n - k) = canonical m e)"
  have sh: "shortest m e n k =
      (if r = 0 then (lo, k)
       else if okLo \<and> okHi then (if 2 * r \<le> den then (lo, k) else (lo + 1, k))
       else if okLo then (lo, k)
       else if okHi then (lo + 1, k)
       else shortest m e n (k + 1))"
    by (subst shortest.simps)
       (simp only: Let_def num_def [symmetric] den_def [symmetric] lo_def [symmetric]
                   r_def [symmetric] okLo_def [symmetric] okHi_def [symmetric])
  have denp: "0 < den" by (simp add: den_def)
  have nump: "0 < num" using mp by (simp add: num_def)
  have lo0: "0 \<le> lo" unfolding lo_def using nump denp by (simp add: pos_imp_zdiv_nonneg_iff)
  have nz: "canonical m e \<noteq> Fin 0 0" using mp by (rule canonical_pos_nonzero)
  have pos: "0 < t" if "0 \<le> t" "decimal t (n - k) = canonical m e" for t
  proof (rule ccontr)
    assume "\<not> 0 < t"
    with that(1) have "t = 0" by simp
    with that(2) nz show False by (simp add: decimal_def nearest_zero Let_def)
  qed
  show ?case
  proof (cases "r = 0")
    case True
    with sh res have sk: "s = lo" "k' = k" by simp_all
    have "den * lo + r = num" by (simp add: lo_def r_def)
    with True have ex: "num = lo * den" by (simp add: mult.commute)
    with nump denp have lop: "0 < lo" by (simp add: zero_less_mult_iff)
    have "nearest (lo * 10 ^ nat (n - k)) (10 ^ nat (- (n - k))) = canonical m e"
    proof (rule nearest_value [OF _ _ mp m53 e top])
      show "0 < lo * 10 ^ nat (n - k)" using lop by simp
      show "(0::int) < 10 ^ nat (- (n - k))" by simp
      have "lo * 10 ^ nat (n - k) * 2 ^ nat (- e) = lo * den" by (simp add: den_def)
      also have "\<dots> = num" by (simp add: ex)
      also have "\<dots> = m * 2 ^ nat e * 10 ^ nat (- (n - k))" by (simp add: num_def)
      finally show "lo * 10 ^ nat (n - k) * 2 ^ nat (- e) = m * 2 ^ nat e * 10 ^ nat (- (n - k))" .
    qed
    with lop sk show ?thesis by (simp add: decimal_nonneg)
  next
    case rn: False
    show ?thesis
    proof (cases "okLo \<or> okHi")
      case True
      with sh rn res have "(s = lo \<and> okLo \<or> s = lo + 1 \<and> okHi) \<and> k' = k"
        by (auto split: if_splits)
      then have k: "k' = k" and d: "decimal s (n - k) = canonical m e" and s0: "0 \<le> s"
        using lo0 by (auto simp: okLo_def okHi_def)
      from pos [OF s0 d] d k show ?thesis by simp
    next
      case False
      with sh rn res have rec: "shortest m e n (k + 1) = (s, k')" by simp
      from False have n1: "\<not> (okLo \<and> okHi)" "\<not> okLo" "\<not> okHi" by simp_all
      note u = r_def okLo_def okHi_def lo_def num_def den_def
      show ?thesis
        by (rule "1.IH" [OF refl refl refl refl refl refl rn [unfolded u] n1(1) [unfolded u]
                           n1(2) [unfolded u] n1(3) [unfolded u] mp m53 e top rec])
    qed
  qed
qed

subsection \<open>Digits\<close>

lemma units:
  "codeUnit CHR ''e'' = 101" "codeUnit CHR ''E'' = 69" "codeUnit CHR ''-'' = 45"
  "codeUnit CHR ''+'' = 43" "codeUnit CHR ''.'' = 46"
  by (simp_all add: codeUnit_def)

lemma literals:
  "js ''.'' = [46]" "js ''0.'' = [48, 46]" "js ''e'' = [101]" "js ''-'' = [45]" "js ''+'' = [43]"
  "js ''0'' = [48]" "js ''Infinity'' = [73, 110, 102, 105, 110, 105, 116, 121]"
  "js ''NaN'' = [78, 97, 78]" "js ''-Infinity'' = [45, 73, 110, 102, 105, 110, 105, 116, 121]"
  by (simp_all add: js_def codeUnit_def)

lemma isDigit_props:
  "isDigit c \<Longrightarrow> \<not> isSpace c \<and> c \<noteq> 45 \<and> c \<noteq> 43 \<and> c \<noteq> 46 \<and> c \<noteq> 101 \<and> c \<noteq> 69 \<and> c \<noteq> 73"
  by (auto simp: isDigit_def isSpace_def)

lemma not_digit: "\<not> isDigit 46" "\<not> isDigit 101" "isDigit 48"
  by (simp_all add: isDigit_def)

lemma digitsToInt_snoc: "digitsToInt (xs @ [c]) = 10 * digitsToInt xs + (c - 48)"
  by (simp add: digitsToInt_def)

lemma digitsToInt_Nil: "digitsToInt [] = 0"
  by (simp add: digitsToInt_def)

lemma digitsToInt_append:
  "digitsToInt (a @ b) = digitsToInt a * 10 ^ length b + digitsToInt b"
proof (induction b rule: rev_induct)
  case Nil
  then show ?case by (simp add: digitsToInt_Nil)
next
  case (snoc c b)
  have "digitsToInt (a @ b @ [c]) = 10 * digitsToInt (a @ b) + (c - 48)"
    using digitsToInt_snoc [of "a @ b" c] by simp
  with snoc show ?case by (simp add: digitsToInt_snoc algebra_simps)
qed

lemma digitsToInt_zeros: "digitsToInt (replicate j 48) = 0"
proof (induction j)
  case 0
  then show ?case by (simp add: digitsToInt_Nil)
next
  case (Suc j)
  have "replicate (Suc j) (48::int) = replicate j 48 @ [48]"
    by (simp add: replicate_append_same)
  then have "digitsToInt (replicate (Suc j) 48) = 10 * digitsToInt (replicate j 48) + (48 - 48)"
    by (simp only: digitsToInt_snoc)
  with Suc show ?case by simp
qed

lemma intToDigits_props:
  "0 \<le> n \<Longrightarrow>
   intToDigits n \<noteq> [] \<and> list_all isDigit (intToDigits n) \<and> digitsToInt (intToDigits n) = n
   \<and> int (length (intToDigits n)) = digitCount n"
proof (induction n rule: intToDigits.induct)
  case (1 n)
  show ?case
  proof (cases "n < 10")
    case True
    have "intToDigits n = [48 + n]" using True by (simp add: intToDigits.simps)
    moreover have "digitCount n = 1" using True by (simp add: digitCount.simps)
    ultimately show ?thesis using True "1.prems" by (simp add: digitsToInt_def isDigit_def)
  next
    case False
    have eq: "intToDigits n = intToDigits (n div 10) @ [48 + n mod 10]"
      using False by (subst intToDigits.simps) simp
    have dc: "digitCount n = 1 + digitCount (n div 10)"
      using False by (subst digitCount.simps) simp
    have d: "isDigit (48 + n mod 10)" by (simp add: isDigit_def)
    from "1.prems" have "0 \<le> n div 10" by simp
    from "1.IH" [OF False this] d show ?thesis
      by (simp add: eq dc digitsToInt_snoc)
  qed
qed

lemma digitCount_times10: "0 < t \<Longrightarrow> digitCount (t * 10) = digitCount t + 1"
  by (subst digitCount.simps) simp

lemma stripZeros_props:
  "0 < s \<Longrightarrow>
   \<exists>z. s = stripZeros s * 10 ^ z \<and> 0 < stripZeros s \<and> digitCount s = digitCount (stripZeros s) + int z"
proof (induction s rule: stripZeros.induct)
  case (1 s)
  show ?case
  proof (cases "s mod 10 = 0")
    case True
    with "1.prems" have st: "stripZeros s = stripZeros (s div 10)"
      by (subst stripZeros.simps) simp
    from True have s10: "s = s div 10 * 10" by (simp add: mod_eq_0_iff_dvd)
    with "1.prems" have pos: "0 < s div 10" by linarith
    from "1.prems" True have c: "s \<noteq> 0 \<and> s mod 10 = 0" by simp
    from "1.IH" [OF c pos] obtain z
      where z: "s div 10 = stripZeros (s div 10) * 10 ^ z" "0 < stripZeros (s div 10)"
        "digitCount (s div 10) = digitCount (stripZeros (s div 10)) + int z" by blast
    have "s = stripZeros s * 10 ^ Suc z" using s10 z(1) st by simp
    moreover have "digitCount s = digitCount (stripZeros s) + int (Suc z)"
      using digitCount_times10 [OF pos] s10 z(3) st by simp
    ultimately show ?thesis using z(2) st by metis
  next
    case False
    then have "stripZeros s = s" by (subst stripZeros.simps) simp
    with "1.prems" have "s = stripZeros s * 10 ^ 0 \<and> 0 < stripZeros s
        \<and> digitCount s = digitCount (stripZeros s) + int 0" by simp
    then show ?thesis by blast
  qed
qed

text \<open>Zeros at the end of the digits can go into the exponent.\<close>

lemma decimal_scale:
  assumes "0 < t"
  shows "decimal (t * 10 ^ z) e = decimal t (e + int z)"
proof -
  have s: "z + nat e + nat (- (e + int z)) = nat (e + int z) + nat (- e)" by linarith
  have "nearest (t * 10 ^ z * 10 ^ nat e) (10 ^ nat (- e))
        = nearest (t * 10 ^ nat (e + int z)) (10 ^ nat (- (e + int z)))"
  proof (rule nearest_cross)
    show "0 < t * 10 ^ z * 10 ^ nat e" "0 < t * 10 ^ nat (e + int z)" using assms by simp_all
    show "(0::int) < 10 ^ nat (- e)" "(0::int) < 10 ^ nat (- (e + int z))" by simp_all
    have "t * 10 ^ z * 10 ^ nat e * 10 ^ nat (- (e + int z)) = t * 10 ^ (z + nat e + nat (- (e + int z)))"
      by (simp add: power_add)
    also have "\<dots> = t * 10 ^ (nat (e + int z) + nat (- e))" by (simp only: s)
    also have "\<dots> = t * 10 ^ nat (e + int z) * 10 ^ nat (- e)" by (simp add: power_add)
    finally show "t * 10 ^ z * 10 ^ nat e * 10 ^ nat (- (e + int z))
                  = t * 10 ^ nat (e + int z) * 10 ^ nat (- e)" .
  qed
  moreover have "0 \<le> t * 10 ^ z" "0 \<le> t" using assms by simp_all
  ultimately show ?thesis by (simp add: decimal_nonneg)
qed

subsection \<open>Reading what formatDigits wrote\<close>

lemma takeWhile_all: "list_all P xs \<Longrightarrow> takeWhile P xs = xs"
  by (induction xs) simp_all

lemma dropWhile_all: "list_all P xs \<Longrightarrow> dropWhile P xs = []"
  by (induction xs) simp_all

lemma takeWhile_stop: "list_all P xs \<Longrightarrow> \<not> P c \<Longrightarrow> takeWhile P (xs @ c # r) = xs"
  by (induction xs) simp_all

lemma dropWhile_stop: "list_all P xs \<Longrightarrow> \<not> P c \<Longrightarrow> dropWhile P (xs @ c # r) = c # r"
  by (induction xs) simp_all

lemma exponentPart_Nil: "exponentPart [] = 0"
  by (simp add: exponentPart_def)

lemma exponentPart_digits:
  "exponentPart (101 # (if ex < 0 then [45] else [43]) @ intToDigits \<bar>ex\<bar>) = ex"
proof -
  define ds where "ds = intToDigits \<bar>ex\<bar>"
  from intToDigits_props [of "\<bar>ex\<bar>"]
  have p: "ds \<noteq> []" "list_all isDigit ds" "digitsToInt ds = \<bar>ex\<bar>"
    by (simp_all add: ds_def)
  have t: "takeWhile isDigit ds = ds" using p(2) by (rule takeWhile_all)
  show ?thesis
  proof (cases "ex < 0")
    case True
    have "exponentPart (101 # [45] @ ds) = - digitsToInt ds"
      unfolding exponentPart_def Let_def using p(1) by (simp add: t units)
    with True p(3) show ?thesis by (simp add: ds_def)
  next
    case False
    have "exponentPart (101 # [43] @ ds) = digitsToInt ds"
      unfolding exponentPart_def Let_def using p(1) by (simp add: t units)
    with False p(3) show ?thesis by (simp add: ds_def)
  qed
qed

lemma lit_plain:
  assumes "list_all isDigit xs" "xs \<noteq> []"
  shows "decimalLiteral xs = Some (digitsToInt xs, 0)"
  unfolding decimalLiteral_def Let_def
  using assms by (simp add: takeWhile_all dropWhile_all exponentPart_Nil)

lemma lit_point:
  assumes "list_all isDigit a" "list_all isDigit b" "a \<noteq> []"
  shows "decimalLiteral (a @ 46 # b) = Some (digitsToInt (a @ b), - int (length b))"
proof -
  have t: "takeWhile isDigit (a @ 46 # b) = a" "dropWhile isDigit (a @ 46 # b) = 46 # b"
    using assms(1) not_digit(1) by (simp_all add: takeWhile_stop dropWhile_stop)
  have u: "takeWhile isDigit b = b" "dropWhile isDigit b = []"
    using assms(2) by (simp_all add: takeWhile_all dropWhile_all)
  show ?thesis
    unfolding decimalLiteral_def Let_def t using assms(3) by (simp add: u exponentPart_Nil units)
qed

lemma lit_exp:
  assumes "list_all isDigit a" "a \<noteq> []"
  shows "decimalLiteral (a @ 101 # es) = Some (digitsToInt a, exponentPart (101 # es))"
proof -
  have t: "takeWhile isDigit (a @ 101 # es) = a" "dropWhile isDigit (a @ 101 # es) = 101 # es"
    using assms(1) not_digit(2) by (simp_all add: takeWhile_stop dropWhile_stop)
  show ?thesis
    unfolding decimalLiteral_def Let_def t using assms(2) by (simp add: units)
qed

lemma lit_point_exp:
  assumes "list_all isDigit a" "list_all isDigit b" "a \<noteq> []"
  shows "decimalLiteral (a @ 46 # b @ 101 # es)
         = Some (digitsToInt (a @ b), exponentPart (101 # es) - int (length b))"
proof -
  have t: "takeWhile isDigit (a @ 46 # b @ 101 # es) = a"
    "dropWhile isDigit (a @ 46 # b @ 101 # es) = 46 # b @ 101 # es"
    using assms(1) not_digit(1) by (simp_all add: takeWhile_stop dropWhile_stop)
  have u: "takeWhile isDigit (b @ 101 # es) = b" "dropWhile isDigit (b @ 101 # es) = 101 # es"
    using assms(2) not_digit(2) by (simp_all add: takeWhile_stop dropWhile_stop)
  show ?thesis
    unfolding decimalLiteral_def Let_def t using assms(3) by (simp add: u units)
qed

lemma list_all_take_drop:
  "list_all P xs \<Longrightarrow> list_all P (take i xs) \<and> list_all P (drop i xs)"
  by (metis append_take_drop_id list_all_append)

lemma zeros_digits: "list_all isDigit (replicate j 48)"
  by (induction j) (simp_all add: not_digit)

lemma formatDigits_exp:
  assumes "\<not> (int (length ds) \<le> n \<and> n \<le> 21)" "\<not> (0 < n \<and> n \<le> 21)" "\<not> (- 6 < n \<and> n \<le> 0)"
  shows "formatDigits ds n =
           (if int (length ds) = 1
            then ds @ 101 # (if n - 1 < 0 then [45] else [43]) @ intToDigits \<bar>n - 1\<bar>
            else take 1 ds @ 46 # drop 1 ds
                   @ 101 # (if n - 1 < 0 then [45] else [43]) @ intToDigits \<bar>n - 1\<bar>)"
proof -
  from assms have c: "(int (length ds) \<le> n \<and> n \<le> 21) = False" "(0 < n \<and> n \<le> 21) = False"
    "(- 6 < n \<and> n \<le> 0) = False" by simp_all
  show ?thesis
    unfolding formatDigits_def Let_def c if_False literals by simp
qed

text \<open>The literal that \<open>formatDigits\<close> writes denotes the digits at their place.\<close>

lemma decimalLiteral_formatDigits:
  assumes d: "list_all isDigit ds" and ne: "ds \<noteq> []" and pos: "0 < digitsToInt ds"
  shows "\<exists>mant ex. decimalLiteral (formatDigits ds n) = Some (mant, ex)
           \<and> decimal mant ex = decimal (digitsToInt ds) (n - int (length ds))"
proof -
  let ?k = "int (length ds)"
  from ne have kpos: "0 < ?k" by simp
  let ?ex = "n - 1"
  let ?es = "(if ?ex < 0 then [45] else [43]) @ intToDigits \<bar>?ex\<bar>"
  consider (whole) "?k \<le> n" "n \<le> 21"
    | (point) "\<not> ?k \<le> n" "0 < n" "n \<le> 21"
    | (small) "\<not> (0 < n)" "- 6 < n"
    | (exp1) "\<not> (?k \<le> n \<and> n \<le> 21)" "\<not> (0 < n \<and> n \<le> 21)" "\<not> (- 6 < n \<and> n \<le> 0)" "?k = 1"
    | (expn) "\<not> (?k \<le> n \<and> n \<le> 21)" "\<not> (0 < n \<and> n \<le> 21)" "\<not> (- 6 < n \<and> n \<le> 0)" "?k \<noteq> 1"
    by linarith
  then show ?thesis
  proof cases
    case whole
    let ?z = "nat (n - ?k)"
    have f: "formatDigits ds n = ds @ replicate ?z 48"
      using whole by (simp add: formatDigits_def Let_def)
    have "list_all isDigit (ds @ replicate ?z 48)"
      using d zeros_digits by simp
    with ne have "decimalLiteral (formatDigits ds n) = Some (digitsToInt (ds @ replicate ?z 48), 0)"
      unfolding f by (intro lit_plain) simp_all
    then have l: "decimalLiteral (formatDigits ds n) = Some (digitsToInt ds * 10 ^ ?z, 0)"
      by (simp add: digitsToInt_append digitsToInt_zeros)
    have e: "int ?z = n - ?k" using whole by simp
    have "decimal (digitsToInt ds * 10 ^ ?z) 0 = decimal (digitsToInt ds) (0 + int ?z)"
      by (rule decimal_scale [OF pos])
    then have "decimal (digitsToInt ds * 10 ^ ?z) 0 = decimal (digitsToInt ds) (n - ?k)"
      by (simp only: e add_0)
    with l show ?thesis by blast
  next
    case point
    let ?a = "take (nat n) ds" and ?b = "drop (nat n) ds"
    have f: "formatDigits ds n = ?a @ 46 # ?b"
      using point by (simp add: formatDigits_def Let_def literals)
    have a: "?a \<noteq> []" using point ne by simp
    from list_all_take_drop [OF d, of "nat n"]
    have "decimalLiteral (?a @ 46 # ?b) = Some (digitsToInt (?a @ ?b), - int (length ?b))"
      using a by (intro lit_point) simp_all
    moreover have "- int (length ?b) = n - ?k" using point by simp
    ultimately have "decimalLiteral (formatDigits ds n) = Some (digitsToInt ds, n - ?k)"
      by (simp add: f)
    then show ?thesis by blast
  next
    case small
    let ?z = "replicate (nat (- n)) (48::int)"
    have nk: "\<not> ?k \<le> n" using small kpos by linarith
    have f: "formatDigits ds n = [48] @ 46 # (?z @ ds)"
      using small nk by (simp add: formatDigits_def Let_def literals)
    have b: "list_all isDigit (?z @ ds)" using d zeros_digits by simp
    have "decimalLiteral ([48] @ 46 # (?z @ ds))
          = Some (digitsToInt ([48] @ (?z @ ds)), - int (length (?z @ ds)))"
      using b not_digit(3) by (intro lit_point) simp_all
    moreover have "digitsToInt ([48] @ (?z @ ds)) = digitsToInt ds"
    proof -
      have "[48] @ ?z = replicate (Suc (nat (- n))) 48" by simp
      then have "digitsToInt (([48] @ ?z) @ ds) = digitsToInt ds"
        by (simp only: digitsToInt_append [of _ ds] digitsToInt_zeros mult_zero_left add_0)
      then show ?thesis by simp
    qed
    moreover have "- int (length (?z @ ds)) = n - ?k" using small by simp
    ultimately have "decimalLiteral (formatDigits ds n) = Some (digitsToInt ds, n - ?k)"
      by (simp only: f)
    then show ?thesis by blast
  next
    case exp1
    have f: "formatDigits ds n = ds @ 101 # ?es"
      using formatDigits_exp [OF exp1(1,2,3)] exp1(4) by simp
    have "decimalLiteral (ds @ 101 # ?es) = Some (digitsToInt ds, exponentPart (101 # ?es))"
      using d ne by (rule lit_exp)
    moreover have "exponentPart (101 # ?es) = n - ?k"
      using exponentPart_digits [of ?ex] exp1(4) by simp
    ultimately have "decimalLiteral (formatDigits ds n) = Some (digitsToInt ds, n - ?k)"
      by (simp only: f)
    then show ?thesis by blast
  next
    case expn
    let ?a = "take 1 ds" and ?b = "drop 1 ds"
    have f: "formatDigits ds n = ?a @ 46 # ?b @ 101 # ?es"
      using formatDigits_exp [OF expn(1,2,3)] expn(4) by simp
    have a: "?a \<noteq> []" using ne by simp
    from list_all_take_drop [OF d, of 1]
    have "decimalLiteral (?a @ 46 # ?b @ 101 # ?es)
          = Some (digitsToInt (?a @ ?b), exponentPart (101 # ?es) - int (length ?b))"
      using a by (intro lit_point_exp) simp_all
    moreover have "exponentPart (101 # ?es) - int (length ?b) = n - ?k"
      using exponentPart_digits [of ?ex] ne by (cases ds) simp_all
    ultimately have "decimalLiteral (formatDigits ds n) = Some (digitsToInt ds, n - ?k)"
      by (simp add: f)
    then show ?thesis by blast
  qed
qed

lemma formatDigits_head:
  assumes d: "list_all isDigit ds" and ne: "ds \<noteq> []"
  shows "\<exists>c r. formatDigits ds n = c # r \<and> isDigit c"
proof -
  obtain c0 r0 where ds: "ds = c0 # r0" using ne by (cases ds) auto
  with d have c0: "isDigit c0" by simp
  have "formatDigits ds n = c0 # tl (formatDigits ds n) \<or> formatDigits ds n = 48 # tl (formatDigits ds n)"
    unfolding formatDigits_def Let_def ds literals
    by (auto simp: take_Cons')
  with c0 not_digit(3) show ?thesis by metis
qed

lemma parseFloat_digit:
  assumes "isDigit c"
  shows "parseFloat (c # r) =
           (case decimalLiteral (c # r) of None \<Rightarrow> NaN | Some (mant, ex) \<Rightarrow> decimal mant ex)"
proof -
  from isDigit_props [OF assms]
  have p: "\<not> isSpace c" "c \<noteq> 45" "c \<noteq> 43" "c \<noteq> 73" by simp_all
  have i: "take 8 (c # r) \<noteq> js ''Infinity''" using p(4) by (simp add: literals)
  show ?thesis
    unfolding parseFloat_def Let_def using p i by (simp add: units split: option.splits)
qed

lemma parseFloat_minus_digit:
  assumes "isDigit c"
  shows "parseFloat (45 # c # r) =
           (case decimalLiteral (c # r) of None \<Rightarrow> NaN | Some (mant, ex) \<Rightarrow> negate (decimal mant ex))"
proof -
  from isDigit_props [OF assms] have p: "c \<noteq> 73" by simp
  have i: "take 8 (c # r) \<noteq> js ''Infinity''" using p by (simp add: literals)
  have sp: "\<not> isSpace 45" by (simp add: isSpace_def)
  show ?thesis
    unfolding parseFloat_def Let_def using sp i by (simp add: units split: option.splits)
qed

subsection \<open>The round trip\<close>

text \<open>
  Printing a binary64 value and reading the string back gives the value: the digits
  printed are the shortest that denote it, and \<open>parseFloat\<close> reads what they denote.
\<close>

lemma parseFloat_numToString_Fin:
  assumes m: "odd m" "\<bar>m\<bar> < 2 ^ 53" and e: "- 1074 \<le> e" and top: "bitLength \<bar>m\<bar> + e \<le> 1024"
  shows "parseFloat (numToString (Fin m e)) = Fin m e"
proof -
  define a where "a = \<bar>m\<bar>"
  from m(1) have m0: "m \<noteq> 0" by auto
  then have ap: "0 < a" by (simp add: a_def)
  from m(1) have ao: "odd a" by (simp add: a_def)
  define n where "n = decimalOrder (a * 2 ^ nat e) (2 ^ nat (- e))"
  obtain s k where sk: "shortest a e n 1 = (s, k)" by (cases "shortest a e n 1")
  from shortest_denotes [OF ap m(2) [folded a_def] e top [folded a_def] sk]
  have sp: "0 < s" and den: "decimal s (n - k) = Fin a e" by (simp_all add: canonical_odd [OF ao])
  from stripZeros_props [OF sp] obtain z
    where z: "s = stripZeros s * 10 ^ z" "0 < stripZeros s"
      "digitCount s = digitCount (stripZeros s) + int z" by blast
  define t where "t = stripZeros s"
  define ds where "ds = intToDigits t"
  from z(2) intToDigits_props [of t]
  have dp: "ds \<noteq> []" "list_all isDigit ds" "digitsToInt ds = t" "int (length ds) = digitCount t"
    by (simp_all add: ds_def t_def)
  define n' where "n' = n - k + digitCount s"
  from z(2) dp(3) have tpos: "0 < digitsToInt ds" by (simp add: t_def)
  from decimalLiteral_formatDigits [OF dp(2) dp(1) tpos, of n'] obtain mant ex
    where lit: "decimalLiteral (formatDigits ds n') = Some (mant, ex)"
      and eq: "decimal mant ex = decimal (digitsToInt ds) (n' - int (length ds))" by blast
  have "n' - int (length ds) = n - k + int z"
    using z(3) dp(4) by (simp add: n'_def t_def)
  with eq dp(3) have "decimal mant ex = decimal t (n - k + int z)" by simp
  also have "\<dots> = decimal (t * 10 ^ z) (n - k)"
    using decimal_scale [of t z "n - k"] z(2) by (simp add: t_def)
  also have "\<dots> = Fin a e" using z(1) den by (simp add: t_def)
  finally have val: "decimal mant ex = Fin a e" .
  from formatDigits_head [OF dp(2) dp(1), of n'] obtain c r
    where hd: "formatDigits ds n' = c # r" and c: "isDigit c" by blast
  have str: "numToString (Fin m e) = (if m < 0 then js ''-'' else []) @ formatDigits ds n'"
    using m0 sk by (simp add: numToString_def Let_def a_def [symmetric] n_def [symmetric]
                      ds_def t_def n'_def)
  show ?thesis
  proof (cases "m < 0")
    case True
    from parseFloat_minus_digit [OF c, of r] lit hd val
    have "parseFloat (45 # formatDigits ds n') = negate (Fin a e)" by simp
    with str True have "parseFloat (numToString (Fin m e)) = negate (Fin a e)"
      by (simp add: literals)
    with True show ?thesis by (simp add: negate_def a_def)
  next
    case False
    from parseFloat_digit [OF c, of r] lit hd val
    have "parseFloat (formatDigits ds n') = Fin a e" by simp
    with str False show ?thesis by (simp add: a_def)
  qed
qed

lemma parseFloat_numToString:
  assumes "isDouble x"
  shows "parseFloat (numToString x) = x"
proof (cases x)
  case NaN
  have "parseFloat (js ''NaN'') = NaN" by code_simp
  with NaN show ?thesis by (simp add: numToString_def)
next
  case PInf
  have "parseFloat (js ''Infinity'') = PInf" by code_simp
  with PInf show ?thesis by (simp add: numToString_def)
next
  case NInf
  have "parseFloat (js ''-Infinity'') = NInf" by code_simp
  with NInf show ?thesis by (simp add: numToString_def)
next
  case (Fin m e)
  show ?thesis
  proof (cases "m = 0")
    case True
    have "parseFloat (js ''0'') = Fin 0 0" by code_simp
    with True Fin assms show ?thesis by (simp add: numToString_def isDouble_def)
  next
    case False
    with Fin assms have "odd m" "\<bar>m\<bar> < 2 ^ 53" "- 1074 \<le> e" "bitLength \<bar>m\<bar> + e \<le> 1024"
      by (simp_all add: isDouble_def)
    from parseFloat_numToString_Fin [OF this] Fin show ?thesis by simp
  qed
qed

text \<open>In particular what \<open>parseFloat\<close> reads survives being printed and read again.\<close>

lemma parseFloat_idem: "parseFloat (numToString (parseFloat s)) = parseFloat s"
  by (rule parseFloat_numToString [OF parseFloat_isDouble])

section \<open>Properties of the limits table\<close>

lemma LIMITS_OwnD: "LIMITS k = Own lim \<Longrightarrow> (k, lim) \<in> set LIMITS_table"
  by (auto simp: LIMITS_def objectRead_def split: option.splits if_splits dest: map_of_SomeD)

lemma table_keys_canonical: "\<forall>(k, lim) \<in> set LIMITS_table. canonicalKey k = k"
  by code_simp

text \<open>Every bound of the table survives being stored in an attribute and read back.\<close>

lemma table_roundtrip:
  "\<forall>(k, lim) \<in> set LIMITS_table.
     parseFloat (numToString (lmin lim)) = lmin lim \<and> parseFloat (numToString (lmax lim)) = lmax lim"
  by code_simp

lemma table_range:
  "\<forall>(k, lim) \<in> set LIMITS_table.
     \<not> js_isNaN (lmin lim) \<and> \<not> js_isNaN (lmax lim) \<and>
     \<not> js_lt (lmin lim) (decimal (- 50) 0) \<and> \<not> js_gt (lmax lim) (decimal 500 0) \<and>
     \<not> js_lt (lmin lim) (lmin lim) \<and> \<not> js_lt (lmax lim) (lmax lim) \<and>
     \<not> js_lt (lmax lim) (lmin lim)"
  by code_simp

section \<open>Canonical keys\<close>

text \<open>
  C9. Resolving a key that is already a key of the limits table gives that key back:
  whenever \<open>LIMITS[k]\<close> is an entry of the table, \<open>canonicalKey(k)\<close> is \<open>k\<close>.
\<close>

theorem canonicalKey_of_table_key: "LIMITS k = Own lim \<Longrightarrow> canonicalKey k = k"
  using table_keys_canonical LIMITS_OwnD by fastforce

theorem canonicalKey_of_table_key_witness:
  "LIMITS (js ''maxheartrate'') = Own (mkLimits (decimal 60 0) (decimal 220 0) (decimal 1 0))
   \<and> canonicalKey (js ''maxheartrate'') = js ''maxheartrate''"
proof -
  have h: "LIMITS (js ''maxheartrate'') = Own (mkLimits (decimal 60 0) (decimal 220 0) (decimal 1 0))"
    by code_simp
  from h canonicalKey_of_table_key [OF h] show ?thesis by (rule conjI)
qed

subsection \<open>Resolution is idempotent on every key\<close>

text \<open>A key made of lower-case letters and digits is its own normal form, so resolving
  twice is resolving once, for every raw key.\<close>

lemma normalizeKey_chars: "c \<in> set (normalizeKey s) \<Longrightarrow> isLower c \<or> isDigit c"
  by (simp add: normalizeKey_def Let_def split: if_splits)

lemma punctuation_units: "js ''()/-._'' = [40, 41, 47, 45, 46, 95]"
  by code_simp

lemma alnum_fixed:
  assumes "isLower c \<or> isDigit c"
  shows "lowerUnit c = [c] \<and> \<not> isSpace c \<and> c \<notin> set (js ''()/-._'')"
  using assms unfolding punctuation_units isLower_def isDigit_def lowerUnit_def isSpace_def
  by auto

lemma toLowerCase_fixed: "\<forall>c \<in> set k. lowerUnit c = [c] \<Longrightarrow> toLowerCase k = k"
  unfolding toLowerCase_def by (induction k) simp_all

lemma normalizeKey_fixed:
  assumes "\<forall>c \<in> set k. isLower c \<or> isDigit c"
  shows "normalizeKey k = k"
proof -
  from assms alnum_fixed
  have p: "\<forall>c \<in> set k. lowerUnit c = [c] \<and> \<not> isSpace c \<and> c \<notin> set (js ''()/-._'')"
    by blast
  from p have a: "toLowerCase k = k"
    by (intro toLowerCase_fixed) blast
  from p have b: "filter (\<lambda>c. \<not> isSpace c) k = k"
    by (intro filter_True) blast
  from p have c: "filter (\<lambda>c. c \<notin> set (js ''()/-._'')) k = k"
    by (intro filter_True) blast
  from assms have d: "filter (\<lambda>c. isLower c \<or> isDigit c) k = k"
    by (intro filter_True) blast
  show ?thesis
    unfolding normalizeKey_def Let_def a b c d by simp
qed

lemma normalizeKey_idem: "normalizeKey (normalizeKey s) = normalizeKey s"
  using normalizeKey_chars normalizeKey_fixed by blast

lemma SYN_values_canonical: "\<forall>(k, v) \<in> set SYN_table. canonicalKey v = v"
  by code_simp

lemma SYN_OwnD: "SYN k = Own v \<Longrightarrow> (k, v) \<in> set SYN_table"
  by (auto simp: SYN_def objectRead_def split: option.splits if_splits dest: map_of_SomeD)

lemma canonicalKey_idempotent: "canonicalKey (canonicalKey raw) = canonicalKey raw"
proof -
  let ?k = "normalizeKey raw"
  have n: "normalizeKey ?k = ?k" by (rule normalizeKey_idem)
  show ?thesis
  proof (cases "LIMITS ?k")
    case (Own lim)
    then show ?thesis by (simp add: canonicalKey_def Let_def n)
  next
    case Inherited
    then show ?thesis by (simp add: canonicalKey_def Let_def n)
  next
    case Missing
    show ?thesis
    proof (cases "SYN ?k")
      case (Own v)
      with Missing have "canonicalKey raw = v" by (simp add: canonicalKey_def Let_def)
      moreover from Own SYN_OwnD SYN_values_canonical have "canonicalKey v = v" by fastforce
      ultimately show ?thesis by simp
    next
      case Inherited
      with Missing show ?thesis by (simp add: canonicalKey_def Let_def n)
    next
      case m: Missing
      with Missing show ?thesis by (simp add: canonicalKey_def Let_def n)
    qed
  qed
qed

section \<open>Which bounds applyLimitsFromMap rewrites\<close>

lemma applyLimits_smin:
  "LIMITS (canonicalKey (featRaw s)) = Own lim \<Longrightarrow>
   smin (applyLimitsFromMap s) =
     (if js_isNaN (parseFloat (smin s)) \<or> js_lt (parseFloat (smin s)) (decimal (- 50) 0)
         \<or> js_gt (parseFloat (smin s)) (lmin lim)
      then numToString (lmin lim) else smin s)"
  by (simp add: applyLimitsFromMap_def Let_def)

lemma applyLimits_smax:
  "LIMITS (canonicalKey (featRaw s)) = Own lim \<Longrightarrow>
   smax (applyLimitsFromMap s) =
     (if js_isNaN (parseFloat (smax s)) \<or> js_gt (parseFloat (smax s)) (decimal 500 0)
         \<or> js_lt (parseFloat (smax s)) (lmax lim)
      then numToString (lmax lim) else smax s)"
  by (simp add: applyLimitsFromMap_def Let_def)

text \<open>A minimum that the guard sends to the table's value was not that value before.\<close>

lemma min_guard_changes:
  assumes "(k, lim) \<in> set LIMITS_table"
    and "js_isNaN (parseFloat (smin s)) \<or> js_lt (parseFloat (smin s)) (decimal (- 50) 0)
         \<or> js_gt (parseFloat (smin s)) (lmin lim)"
  shows "smin s \<noteq> numToString (lmin lim)"
proof
  assume "smin s = numToString (lmin lim)"
  with assms(1) table_roundtrip have "parseFloat (smin s) = lmin lim" by fastforce
  moreover from assms(1) table_range
  have "\<not> js_isNaN (lmin lim)" "\<not> js_lt (lmin lim) (decimal (- 50) 0)" "\<not> js_lt (lmin lim) (lmin lim)"
    by fastforce+
  ultimately show False using assms(2) by (simp add: js_gt_def)
qed

lemma max_guard_changes:
  assumes "(k, lim) \<in> set LIMITS_table"
    and "js_isNaN (parseFloat (smax s)) \<or> js_gt (parseFloat (smax s)) (decimal 500 0)
         \<or> js_lt (parseFloat (smax s)) (lmax lim)"
  shows "smax s \<noteq> numToString (lmax lim)"
proof
  assume "smax s = numToString (lmax lim)"
  with assms(1) table_roundtrip have "parseFloat (smax s) = lmax lim" by fastforce
  moreover from assms(1) table_range
  have "\<not> js_isNaN (lmax lim)" "\<not> js_gt (lmax lim) (decimal 500 0)" "\<not> js_lt (lmax lim) (lmax lim)"
    by fastforce+
  ultimately show False using assms(2) by simp
qed

text \<open>
  C1, as the code has it. For a slider whose key resolves to an entry \<open>lim\<close> of the
  limits table, \<open>applyLimitsFromMap\<close> changes the declared minimum exactly when it is not
  a number, is below -50, or is above the canonical minimum (a narrower range than the
  table's), and changes the declared maximum exactly when it is not a number, is above
  500, or is below the canonical maximum. A bound it changes becomes the canonical
  bound. So a declared range that is wider than the canonical one and stays within
  -50..500 is kept, and a narrower one is widened to the canonical range.
\<close>

theorem applyLimits_bound_updates:
  assumes "LIMITS (canonicalKey (featRaw s)) = Own lim"
  shows "(smin (applyLimitsFromMap s) \<noteq> smin s) =
           (js_isNaN (parseFloat (smin s)) \<or> js_lt (parseFloat (smin s)) (decimal (- 50) 0)
              \<or> js_gt (parseFloat (smin s)) (lmin lim))
       \<and> (smax (applyLimitsFromMap s) \<noteq> smax s) =
           (js_isNaN (parseFloat (smax s)) \<or> js_gt (parseFloat (smax s)) (decimal 500 0)
              \<or> js_lt (parseFloat (smax s)) (lmax lim))
       \<and> (smin (applyLimitsFromMap s) = smin s \<or> smin (applyLimitsFromMap s) = numToString (lmin lim))
       \<and> (smax (applyLimitsFromMap s) = smax s \<or> smax (applyLimitsFromMap s) = numToString (lmax lim))"
proof -
  from assms have tbl: "(canonicalKey (featRaw s), lim) \<in> set LIMITS_table" by (rule LIMITS_OwnD)
  have a: "(smin (applyLimitsFromMap s) \<noteq> smin s) =
           (js_isNaN (parseFloat (smin s)) \<or> js_lt (parseFloat (smin s)) (decimal (- 50) 0)
              \<or> js_gt (parseFloat (smin s)) (lmin lim))"
    using min_guard_changes [OF tbl, of s] by (auto simp: applyLimits_smin [OF assms])
  have b: "(smax (applyLimitsFromMap s) \<noteq> smax s) =
           (js_isNaN (parseFloat (smax s)) \<or> js_gt (parseFloat (smax s)) (decimal 500 0)
              \<or> js_lt (parseFloat (smax s)) (lmax lim))"
    using max_guard_changes [OF tbl, of s] by (auto simp: applyLimits_smax [OF assms])
  have c: "smin (applyLimitsFromMap s) = smin s \<or> smin (applyLimitsFromMap s) = numToString (lmin lim)"
    by (simp add: applyLimits_smin [OF assms])
  have d: "smax (applyLimitsFromMap s) = smax s \<or> smax (applyLimitsFromMap s) = numToString (lmax lim)"
    by (simp add: applyLimits_smax [OF assms])
  from a b c d show ?thesis by blast
qed

text \<open>The \<open>thalach\<close> slider of the spec's scenario, with no minimum and the maximum 9999:
  both bounds are replaced by the canonical ones.\<close>

theorem applyLimits_bound_updates_witness:
  "LIMITS (canonicalKey (featRaw thalachSlider)) = Own (mkLimits (decimal 60 0) (decimal 220 0) (decimal 1 0))
   \<and> smin (applyLimitsFromMap thalachSlider) = numToString (decimal 60 0)
   \<and> smax (applyLimitsFromMap thalachSlider) = numToString (decimal 220 0)"
proof -
  let ?lim = "mkLimits (decimal 60 0) (decimal 220 0) (decimal 1 0)"
  have h: "LIMITS (canonicalKey (featRaw thalachSlider)) = Own ?lim" by code_simp
  have g1: "js_isNaN (parseFloat (smin thalachSlider))" by code_simp
  have g2: "js_gt (parseFloat (smax thalachSlider)) (decimal 500 0)" by code_simp
  have l: "lmin ?lim = decimal 60 0" "lmax ?lim = decimal 220 0" by (simp_all add: mkLimits_def)
  from applyLimits_bound_updates [OF h] g1 g2
  have "smin (applyLimitsFromMap thalachSlider) = numToString (lmin ?lim)"
    and "smax (applyLimitsFromMap thalachSlider) = numToString (lmax ?lim)"
    by blast+
  with h l show ?thesis by simp
qed

text \<open>
  Against C1 as the spec words it. The age slider declared with the range 30..90 has
  bounds narrower than the canonical 18..100 and inside -50..500, and both are
  rewritten; the one declared with 0..300 has bounds wider than the canonical ones, and
  both are kept.
\<close>

theorem applyLimits_narrow_bounds_counterexample:
  "LIMITS (canonicalKey (featRaw ageNarrow)) = Own (mkLimits (decimal 18 0) (decimal 100 0) (decimal 1 0))
   \<and> parseFloat (smin ageNarrow) = decimal 30 0 \<and> parseFloat (smax ageNarrow) = decimal 90 0
   \<and> js_gt (decimal 30 0) (decimal 18 0) \<and> js_lt (decimal 30 0) (decimal 500 0)
   \<and> js_lt (decimal 90 0) (decimal 100 0) \<and> js_gt (decimal 90 0) (decimal (- 50) 0)
   \<and> smin (applyLimitsFromMap ageNarrow) = js ''18''
   \<and> smax (applyLimitsFromMap ageNarrow) = js ''100''
   \<and> LIMITS (canonicalKey (featRaw ageWide)) = Own (mkLimits (decimal 18 0) (decimal 100 0) (decimal 1 0))
   \<and> parseFloat (smin ageWide) = decimal 0 0 \<and> parseFloat (smax ageWide) = decimal 300 0
   \<and> js_lt (decimal 0 0) (decimal 18 0) \<and> js_gt (decimal 300 0) (decimal 100 0)
   \<and> smin (applyLimitsFromMap ageWide) = js ''0''
   \<and> smax (applyLimitsFromMap ageWide) = js ''300''"
  by code_simp

section \<open>Value and step after applyLimitsFromMap\<close>

lemma finLess_asym: "finLess m e n f \<Longrightarrow> \<not> finLess n f m e"
  by (simp add: finLess_def Let_def min.commute)

lemma js_lt_asym: "js_lt a b \<Longrightarrow> \<not> js_lt b a"
  by (cases a; cases b) (simp_all add: finLess_asym)

lemma js_le_iff: "a \<noteq> NaN \<Longrightarrow> b \<noteq> NaN \<Longrightarrow> js_le a b = (\<not> js_lt b a)"
  by (cases a; cases b) simp_all

lemma js_lt_irrefl: "\<not> js_lt a a"
  using js_lt_asym by blast

text \<open>\<open>clamp\<close> answers a number between its bounds, and the lower bound for \<open>NaN\<close>.\<close>

lemma clamp_range:
  assumes lo: "\<not> js_isNaN lo" and hi: "\<not> js_isNaN hi" and order: "\<not> js_lt hi lo"
  shows "js_le lo (clamp v lo hi) \<and> js_le (clamp v lo hi) hi"
proof -
  define x where "x = (case v of IsNum n \<Rightarrow> n | IsStr t \<Rightarrow> parseFloat t)"
  from lo hi have l: "lo \<noteq> NaN" and h: "hi \<noteq> NaN" by (simp_all add: js_isNaN_def)
  have c: "clamp v lo hi = (if x = NaN then lo else Math_min hi (Math_max lo x))"
    by (simp add: clamp_def x_def js_isNaN_def)
  show ?thesis
  proof (cases "x = NaN")
    case True
    with c l h order show ?thesis by (simp add: js_le_iff js_lt_irrefl)
  next
    case False
    define m where "m = Math_max lo x"
    have m: "m = (if js_lt lo x then x else lo)" using False l by (simp add: m_def Math_max_def)
    then have mn: "m \<noteq> NaN" using False l by simp
    have lom: "js_le lo m"
      using m l False js_lt_asym [of lo x] by (simp add: js_le_iff js_lt_irrefl)
    have r: "clamp v lo hi = (if js_lt m hi then m else hi)"
      using c False mn h by (simp add: m_def [symmetric] Math_min_def)
    show ?thesis
    proof (cases "js_lt m hi")
      case True
      with r lom mn h js_lt_asym [of m hi] show ?thesis by (simp add: js_le_iff)
    next
      case False
      with r l h order show ?thesis by (simp add: js_le_iff js_lt_irrefl)
    qed
  qed
qed

lemma applyLimits_svalue:
  "LIMITS (canonicalKey (featRaw s)) = Own lim \<Longrightarrow>
   svalue (applyLimitsFromMap s) = numToString (clamp (IsNum (parseFloat (svalue s))) (lmin lim) (lmax lim))"
  by (simp add: applyLimitsFromMap_def Let_def)

lemma applyLimits_sstep:
  "LIMITS (canonicalKey (featRaw s)) = Own lim \<Longrightarrow>
   sstep (applyLimitsFromMap s) =
     (if sstep s = [] \<or> sstep s = js ''any'' \<or> js_le (parseFloat (sstep s)) (decimal 0 0)
      then numToString (if numTruthy (lstep lim) then lstep lim else decimal 1 0)
      else sstep s)"
  by (simp add: applyLimitsFromMap_def Let_def)

text \<open>The value written is the string of a number between the canonical bounds, and of
  the canonical minimum when the value before was no number.\<close>

lemma applyLimits_value_in_range:
  assumes "LIMITS (canonicalKey (featRaw s)) = Own lim"
  shows "\<exists>c. svalue (applyLimitsFromMap s) = numToString c
           \<and> js_le (lmin lim) c \<and> js_le c (lmax lim)
           \<and> (js_isNaN (parseFloat (svalue s)) \<longrightarrow> c = lmin lim)"
proof -
  from assms have tbl: "(canonicalKey (featRaw s), lim) \<in> set LIMITS_table" by (rule LIMITS_OwnD)
  with table_range have r: "\<not> js_isNaN (lmin lim)" "\<not> js_isNaN (lmax lim)" "\<not> js_lt (lmax lim) (lmin lim)"
    by fastforce+
  let ?c = "clamp (IsNum (parseFloat (svalue s))) (lmin lim) (lmax lim)"
  have "svalue (applyLimitsFromMap s) = numToString ?c" by (rule applyLimits_svalue [OF assms])
  moreover have "js_le (lmin lim) ?c \<and> js_le ?c (lmax lim)" by (rule clamp_range [OF r])
  moreover have "js_isNaN (parseFloat (svalue s)) \<longrightarrow> ?c = lmin lim"
    by (simp add: clamp_def)
  ultimately show ?thesis by blast
qed

text \<open>A declared bound is the canonical one afterwards, or it was kept and does not lie
  inside the canonical range.\<close>

lemma applyLimits_declared_bounds:
  assumes "LIMITS (canonicalKey (featRaw s)) = Own lim"
  shows "(smin (applyLimitsFromMap s) = numToString (lmin lim)
          \<or> smin (applyLimitsFromMap s) = smin s \<and> js_le (parseFloat (smin s)) (lmin lim))
       \<and> (smax (applyLimitsFromMap s) = numToString (lmax lim)
          \<or> smax (applyLimitsFromMap s) = smax s \<and> js_le (lmax lim) (parseFloat (smax s)))"
proof -
  from assms have tbl: "(canonicalKey (featRaw s), lim) \<in> set LIMITS_table" by (rule LIMITS_OwnD)
  with table_range have r: "lmin lim \<noteq> NaN" "lmax lim \<noteq> NaN"
    by (fastforce simp: js_isNaN_def)+
  have a: "smin (applyLimitsFromMap s) = numToString (lmin lim)
          \<or> smin (applyLimitsFromMap s) = smin s \<and> js_le (parseFloat (smin s)) (lmin lim)"
    using r by (auto simp: applyLimits_smin [OF assms] js_le_iff js_isNaN_def js_gt_def)
  have b: "smax (applyLimitsFromMap s) = numToString (lmax lim)
          \<or> smax (applyLimitsFromMap s) = smax s \<and> js_le (lmax lim) (parseFloat (smax s))"
    using r by (auto simp: applyLimits_smax [OF assms] js_le_iff js_isNaN_def js_gt_def)
  from a b show ?thesis by (rule conjI)
qed

text \<open>The order of two finite numbers can be read off at any common scale.\<close>

lemma finLess_at:
  assumes "c \<le> e" "c \<le> f"
  shows "finLess m e n f \<longleftrightarrow> m * 2 ^ nat (e - c) < n * 2 ^ nat (f - c)"
proof -
  let ?c0 = "min e f"
  from assms have c: "c \<le> ?c0" by simp
  have p: "(0::int) < 2 ^ nat (?c0 - c)" by simp
  have a: "nat (e - c) = nat (e - ?c0) + nat (?c0 - c)" using c by linarith
  have b: "nat (f - c) = nat (f - ?c0) + nat (?c0 - c)" using c by linarith
  have "m * 2 ^ nat (e - c) < n * 2 ^ nat (f - c) \<longleftrightarrow>
        (m * 2 ^ nat (e - ?c0)) * 2 ^ nat (?c0 - c) < (n * 2 ^ nat (f - ?c0)) * 2 ^ nat (?c0 - c)"
    by (simp only: a b power_add mult.assoc)
  also have "\<dots> \<longleftrightarrow> m * 2 ^ nat (e - ?c0) < n * 2 ^ nat (f - ?c0)"
    using p by (simp only: mult_less_cancel_right_pos)
  finally show ?thesis by (simp add: finLess_def Let_def)
qed

lemma finLess_trans_le:
  assumes "\<not> finLess n f m e" "\<not> finLess k g n f"
  shows "\<not> finLess k g m e"
proof -
  define c where "c = min e (min f g)"
  have le: "c \<le> e" "c \<le> f" "c \<le> g" by (simp_all add: c_def)
  from assms(1) have "m * 2 ^ nat (e - c) \<le> n * 2 ^ nat (f - c)"
    by (simp add: finLess_at [OF le(2) le(1)])
  moreover from assms(2) have "n * 2 ^ nat (f - c) \<le> k * 2 ^ nat (g - c)"
    by (simp add: finLess_at [OF le(3) le(2)])
  ultimately show ?thesis by (simp add: finLess_at [OF le(3) le(1)])
qed

lemma js_le_trans:
  assumes "js_le a b" "js_le b c"
  shows "js_le a c"
proof (cases b)
  case NaN
  with assms show ?thesis by (cases a) simp_all
next
  case PInf
  with assms show ?thesis by (cases a; cases c) simp_all
next
  case NInf
  with assms show ?thesis by (cases a; cases c) simp_all
next
  case (Fin n f)
  with assms show ?thesis
    using finLess_trans_le by (cases a; cases c) auto
qed

lemma table_isDouble:
  "\<forall>(k, lim) \<in> set LIMITS_table. isDouble (lmin lim) \<and> isDouble (lmax lim)"
  by code_simp

lemma clamp_isDouble:
  assumes "isDouble lo" "isDouble hi" "isDouble x"
  shows "isDouble (clamp (IsNum x) lo hi)"
  using assms by (simp add: clamp_def Math_min_def Math_max_def isDouble_special)

text \<open>
  After \<open>applyLimitsFromMap\<close> the value lies between the declared bounds, all three read
  with \<open>parseFloat\<close>: the value written is the string of a number between the canonical
  bounds and reads back as that number, and a declared bound is the canonical one or was
  kept because it does not lie inside the canonical range.
\<close>

lemma applyLimits_value_within_declared_bounds:
  assumes "LIMITS (canonicalKey (featRaw s)) = Own lim"
  shows "js_le (parseFloat (smin (applyLimitsFromMap s))) (parseFloat (svalue (applyLimitsFromMap s)))
       \<and> js_le (parseFloat (svalue (applyLimitsFromMap s))) (parseFloat (smax (applyLimitsFromMap s)))"
proof -
  from assms have tbl: "(canonicalKey (featRaw s), lim) \<in> set LIMITS_table" by (rule LIMITS_OwnD)
  with table_isDouble have dbl: "isDouble (lmin lim)" "isDouble (lmax lim)" by fastforce+
  from tbl table_roundtrip
  have rt: "parseFloat (numToString (lmin lim)) = lmin lim" "parseFloat (numToString (lmax lim)) = lmax lim"
    by fastforce+
  define c where "c = clamp (IsNum (parseFloat (svalue s))) (lmin lim) (lmax lim)"
  have v: "svalue (applyLimitsFromMap s) = numToString c"
    unfolding c_def by (rule applyLimits_svalue [OF assms])
  from tbl table_range
  have r: "\<not> js_isNaN (lmin lim)" "\<not> js_isNaN (lmax lim)" "\<not> js_lt (lmax lim) (lmin lim)"
    by fastforce+
  from clamp_range [OF r] have lo: "js_le (lmin lim) c" and hi: "js_le c (lmax lim)"
    by (simp_all add: c_def)
  have "isDouble c" unfolding c_def by (rule clamp_isDouble [OF dbl parseFloat_isDouble])
  then have pv: "parseFloat (svalue (applyLimitsFromMap s)) = c"
    unfolding v by (rule parseFloat_numToString)
  note b = applyLimits_declared_bounds [OF assms]
  have A: "js_le (parseFloat (smin (applyLimitsFromMap s))) c"
  proof -
    from b consider "smin (applyLimitsFromMap s) = numToString (lmin lim)"
      | "smin (applyLimitsFromMap s) = smin s" "js_le (parseFloat (smin s)) (lmin lim)" by blast
    then show ?thesis
    proof cases
      case 1
      with rt(1) lo show ?thesis by simp
    next
      case 2
      from js_le_trans [OF 2(2) lo] 2(1) show ?thesis by simp
    qed
  qed
  have B: "js_le c (parseFloat (smax (applyLimitsFromMap s)))"
  proof -
    from b consider "smax (applyLimitsFromMap s) = numToString (lmax lim)"
      | "smax (applyLimitsFromMap s) = smax s" "js_le (lmax lim) (parseFloat (smax s))" by blast
    then show ?thesis
    proof cases
      case 1
      with rt(2) hi show ?thesis by simp
    next
      case 2
      from js_le_trans [OF hi 2(2)] 2(1) show ?thesis by simp
    qed
  qed
  from A B show ?thesis by (simp add: pv)
qed

lemma table_steps:
  "\<forall>(k, lim) \<in> set LIMITS_table.
     numTruthy (lstep lim) \<and> js_lt (decimal 0 0) (lstep lim)
     \<and> parseFloat (numToString (lstep lim)) = lstep lim"
  by code_simp

text \<open>The step is a positive number afterwards, provided the declared step was absent,
  \<open>any\<close>, or something \<open>parseFloat\<close> can read.\<close>

lemma applyLimits_step_positive:
  assumes "LIMITS (canonicalKey (featRaw s)) = Own lim"
    and "sstep s = [] \<or> sstep s = js ''any'' \<or> \<not> js_isNaN (parseFloat (sstep s))"
  shows "js_lt (decimal 0 0) (parseFloat (sstep (applyLimitsFromMap s)))"
proof (cases "sstep s = [] \<or> sstep s = js ''any'' \<or> js_le (parseFloat (sstep s)) (decimal 0 0)")
  case True
  from assms(1) have "(canonicalKey (featRaw s), lim) \<in> set LIMITS_table" by (rule LIMITS_OwnD)
  with table_steps have t: "numTruthy (lstep lim)" "js_lt (decimal 0 0) (lstep lim)"
    "parseFloat (numToString (lstep lim)) = lstep lim" by fastforce+
  from True t(1) have "sstep (applyLimitsFromMap s) = numToString (lstep lim)"
    by (simp add: applyLimits_sstep [OF assms(1)])
  with t(2,3) show ?thesis by simp
next
  case False
  with assms(2) have n: "parseFloat (sstep s) \<noteq> NaN" by (simp add: js_isNaN_def)
  have z: "decimal 0 0 \<noteq> NaN" by code_simp
  from False have "sstep (applyLimitsFromMap s) = sstep s"
    by (simp add: applyLimits_sstep [OF assms(1)])
  moreover from False n z have "js_lt (decimal 0 0) (parseFloat (sstep s))"
    by (simp add: js_le_iff)
  ultimately show ?thesis by simp
qed

text \<open>
  So every part of C6 but one holds for every slider whose key resolves: the value lies
  between the declared bounds, a value that was no number has become the canonical
  minimum, and the step is a positive number, unless the step declared before was some
  text other than \<open>any\<close> that \<open>parseFloat\<close> reads no number from.
\<close>

lemma applyLimits_normalises:
  assumes "LIMITS (canonicalKey (featRaw s)) = Own lim"
  shows "js_le (parseFloat (smin (applyLimitsFromMap s))) (parseFloat (svalue (applyLimitsFromMap s)))
       \<and> js_le (parseFloat (svalue (applyLimitsFromMap s))) (parseFloat (smax (applyLimitsFromMap s)))
       \<and> (sstep s = [] \<or> sstep s = js ''any'' \<or> \<not> js_isNaN (parseFloat (sstep s)) \<longrightarrow>
            js_lt (decimal 0 0) (parseFloat (sstep (applyLimitsFromMap s))))
       \<and> (js_isNaN (parseFloat (svalue s)) \<longrightarrow>
            svalue (applyLimitsFromMap s) = numToString (lmin lim))"
proof -
  note bounds = applyLimits_value_within_declared_bounds [OF assms]
  have step: "sstep s = [] \<or> sstep s = js ''any'' \<or> \<not> js_isNaN (parseFloat (sstep s)) \<longrightarrow>
            js_lt (decimal 0 0) (parseFloat (sstep (applyLimitsFromMap s)))"
    using applyLimits_step_positive [OF assms] by blast
  have nan: "js_isNaN (parseFloat (svalue s)) \<longrightarrow>
            svalue (applyLimitsFromMap s) = numToString (lmin lim)"
    by (simp add: applyLimits_svalue [OF assms] clamp_def)
  from bounds step nan show ?thesis by blast
qed

text \<open>What \<open>applyLimitsFromMap\<close> makes of the slider of the spec's scenario, which has
  the feature tag \<open>trestbps\<close>, the value 500 and nothing else declared.\<close>

lemma resting_scenario:
  "smin (applyLimitsFromMap restingSlider) = js ''80''
   \<and> smax (applyLimitsFromMap restingSlider) = js ''200''
   \<and> sstep (applyLimitsFromMap restingSlider) = js ''1''
   \<and> svalue (applyLimitsFromMap restingSlider) = js ''200''"
  by code_simp

text \<open>
  C6, at a slider the claim covers and the code gets wrong. The age slider is declared
  with \<open>step="abc"\<close>, and its key resolves to the entry for \<open>age\<close>. The guard of the
  step is \<open>!input.step || input.step === "any" || parseFloat(input.step) <= 0\<close>;
  \<open>parseFloat("abc")\<close> is \<open>NaN\<close> and \<open>NaN <= 0\<close> is false, so the step is left as
  it is: after \<open>applyLimitsFromMap\<close> the declared step is still \<open>abc\<close>, which is no
  positive number. The guards of the minimum and the maximum, three lines above, test
  \<open>isNaN\<close>; this one does not.
\<close>

theorem applyLimits_keeps_bad_step:
  "LIMITS (canonicalKey (featRaw ageBadStep)) = Own (mkLimits (decimal 18 0) (decimal 100 0) (decimal 1 0))
   \<and> sstep ageBadStep = js ''abc''
   \<and> sstep (applyLimitsFromMap ageBadStep) = js ''abc''
   \<and> parseFloat (sstep (applyLimitsFromMap ageBadStep)) = NaN
   \<and> \<not> js_lt (decimal 0 0) (parseFloat (sstep (applyLimitsFromMap ageBadStep)))"
  by code_simp

section \<open>The update button\<close>

text \<open>
  C7. When \<open>BASE_INPUTS\<close> is undefined at the click, the handler warns, shows the alert
  and returns: the log holds no request, and the document, the button's disabled flag
  and label included, is as it was.
\<close>

theorem click_without_base_inputs:
  "fst (clickHandler ev None resp p) = p
   \<and> snd (clickHandler ev None resp p) =
       [ConsoleWarn (js ''BASE_INPUTS is not defined on page. Cannot send base_inputs.''),
        Alert (js ''Base input values missing '' @ emDash @ js '' update cannot run.'')]
   \<and> filter isFetch (snd (clickHandler ev None resp p)) = []
   \<and> btnDisabled (fst (clickHandler ev None resp p)) = btnDisabled p
   \<and> btnText (fst (clickHandler ev None resp p)) = btnText p"
  by (simp add: clickHandler_def clickBegin_def isFetch_def)

text \<open>On the results page, whose button is enabled and labelled \<open>Update Prediction\<close>, the
  click without \<open>BASE_INPUTS\<close> sends nothing and leaves the button so.\<close>

theorem click_without_base_inputs_witness:
  "btnDisabled (fst (clickHandler noEnv None correctionResponse resultsPage)) = False
   \<and> btnText (fst (clickHandler noEnv None correctionResponse resultsPage)) = js ''Update Prediction''
   \<and> filter isFetch (snd (clickHandler noEnv None correctionResponse resultsPage)) = []"
proof -
  have b: "btnDisabled resultsPage = False" "btnText resultsPage = js ''Update Prediction''"
    by (simp_all add: resultsPage_def)
  from click_without_base_inputs [of noEnv correctionResponse resultsPage]
  have a: "fst (clickHandler noEnv None correctionResponse resultsPage) = resultsPage"
    and f: "filter isFetch (snd (clickHandler noEnv None correctionResponse resultsPage)) = []"
    by blast+
  show ?thesis by (simp only: a b f)
qed

text \<open>
  C8. When the response is not \<open>ok\<close>, the handler logs the error and shows the alert,
  and the document differs from the one at the click in nothing but the button, which
  is enabled and labelled \<open>Update Prediction\<close>: result element, suggestions list,
  sliders and read-outs are untouched. Whatever the request comes back with, the
  button ends enabled and with that label.
\<close>

theorem click_failed_status:
  "clickResume ev (Response False status b) p =
     (p\<lparr>btnDisabled := False, btnText := js ''Update Prediction''\<rparr>,
      [ConsoleError (js ''Update failed:''), Alert (js ''Failed to update prediction. Check server logs.'')])
   \<and> clickHandler ev (Some base) (Response False status b) p =
     (p\<lparr>btnDisabled := False, btnText := js ''Update Prediction''\<rparr>,
      [Fetch (js ''/predict'') base (collectModified (sliders p)),
       ConsoleError (js ''Update failed:''), Alert (js ''Failed to update prediction. Check server logs.'')])
   \<and> (\<forall>resp. btnDisabled (fst (clickResume ev resp p)) = False
            \<and> btnText (fst (clickResume ev resp p)) = js ''Update Prediction''
            \<and> btnDisabled (fst (clickHandler ev (Some base) resp p)) = False
            \<and> btnText (fst (clickHandler ev (Some base) resp p)) = js ''Update Prediction'')"
  by (auto simp: clickHandler_def clickBegin_def clickResume_def tryBody_def Let_def
           split: outcome.splits prod.splits)

text \<open>On the results page a response with status 500 leaves the shown result, the tips and
  both sliders as they were.\<close>

theorem click_failed_status_witness:
  "finalResult (fst (clickHandler noEnv (Some (Obj [])) (Response False 500 BadJson) resultsPage))
     = finalResult resultsPage
   \<and> suggestions (fst (clickHandler noEnv (Some (Obj [])) (Response False 500 BadJson) resultsPage))
     = suggestions resultsPage
   \<and> sliders (fst (clickHandler noEnv (Some (Obj [])) (Response False 500 BadJson) resultsPage))
     = sliders resultsPage
   \<and> btnDisabled (fst (clickHandler noEnv (Some (Obj [])) (Response False 500 BadJson) resultsPage)) = False"
proof -
  from click_failed_status [of noEnv 500 BadJson resultsPage "Obj []"]
  have "clickHandler noEnv (Some (Obj [])) (Response False 500 BadJson) resultsPage =
     (resultsPage\<lparr>btnDisabled := False, btnText := js ''Update Prediction''\<rparr>,
      [Fetch (js ''/predict'') (Obj []) (collectModified (sliders resultsPage)),
       ConsoleError (js ''Update failed:''), Alert (js ''Failed to update prediction. Check server logs.'')])"
    by blast
  then show ?thesis by simp
qed

subsection \<open>Slider corrections\<close>

lemma findIndex_Some:
  "findIndex P xs = Some i \<Longrightarrow> i < length xs \<and> P (xs ! i)"
  by (induction xs arbitrary: i) (auto split: if_splits)

lemma applyLimits_feat: "feat (applyLimitsFromMap s) = feat s"
  by (simp add: applyLimitsFromMap_def Let_def split: lookup.splits)

lemma querySlider_plain:
  "cssPlain nm \<Longrightarrow> querySlider ev ss nm = Match i \<Longrightarrow> i < length ss \<and> feat (ss ! i) = Some nm"
  by (auto simp: querySlider_def split: option.splits dest: findIndex_Some)

text \<open>One correction leaves the sliders alone or rewrites the one the selector found.\<close>

lemma correctOne_shape:
  "sliders (pageOf (correctOne ev item p)) = sliders p
   \<or> (\<exists>nm i v. itemName item = Some nm \<and> querySlider ev (sliders p) nm = Match i
         \<and> sliders (pageOf (correctOne ev item p)) =
             (sliders p)[i := applyLimitsFromMap ((sliders p ! i)\<lparr>svalue := v\<rparr>)])"
  by (auto simp: correctOne_def itemName_def Let_def split: option.splits selResult.splits)

lemma correctOne_sliders:
  assumes "case itemName item of None \<Rightarrow> True | Some nm \<Rightarrow> cssPlain nm"
  shows "map feat (sliders (pageOf (correctOne ev item p))) = map feat (sliders p)
       \<and> (\<forall>j < length (sliders p).
            sliders (pageOf (correctOne ev item p)) ! j \<noteq> sliders p ! j \<longrightarrow>
              itemName item \<noteq> None \<and> feat (sliders p ! j) = itemName item)"
proof -
  consider (same) "sliders (pageOf (correctOne ev item p)) = sliders p"
    | (upd) nm i v where "itemName item = Some nm" "querySlider ev (sliders p) nm = Match i"
        "sliders (pageOf (correctOne ev item p)) =
           (sliders p)[i := applyLimitsFromMap ((sliders p ! i)\<lparr>svalue := v\<rparr>)]"
    using correctOne_shape [of ev item p] by blast
  then show ?thesis
  proof cases
    case same
    then show ?thesis by simp
  next
    case upd
    from upd(1) assms have "cssPlain nm" by simp
    from querySlider_plain [OF this upd(2)]
    have i: "i < length (sliders p)" "feat (sliders p ! i) = Some nm"
      by simp_all
    have "map feat (sliders (pageOf (correctOne ev item p))) = map feat (sliders p)"
      using i by (simp add: upd(3) map_update applyLimits_feat list_update_same_conv)
    moreover have "\<forall>j < length (sliders p).
            sliders (pageOf (correctOne ev item p)) ! j \<noteq> sliders p ! j \<longrightarrow>
              itemName item \<noteq> None \<and> feat (sliders p ! j) = itemName item"
      using i upd(1) by (auto simp: upd(3) nth_list_update)
    ultimately show ?thesis by simp
  qed
qed

lemma correctAll_sliders:
  assumes "plainNames items"
  shows "map feat (sliders (pageOf (correctAll ev items p))) = map feat (sliders p)
       \<and> (\<forall>j < length (sliders p).
            sliders (pageOf (correctAll ev items p)) ! j \<noteq> sliders p ! j \<longrightarrow>
              (\<exists>item \<in> set items. itemName item \<noteq> None \<and> feat (sliders p ! j) = itemName item))"
  using assms
proof (induction items arbitrary: p)
  case Nil
  then show ?case by simp
next
  case (Cons item items)
  from Cons.prems have pl: "case itemName item of None \<Rightarrow> True | Some nm \<Rightarrow> cssPlain nm"
    and rest: "plainNames items" by (simp_all add: plainNames_def)
  note one = correctOne_sliders [OF pl, of ev p]
  show ?case
  proof (cases "correctOne ev item p")
    case (Threw q)
    with one show ?thesis by auto
  next
    case (Done q)
    note ih = Cons.IH [OF rest, of q]
    from one Done have mf: "map feat (sliders q) = map feat (sliders p)" by simp
    then have len: "length (sliders q) = length (sliders p)" by (metis length_map)
    have ft: "\<And>j. j < length (sliders p) \<Longrightarrow> feat (sliders q ! j) = feat (sliders p ! j)"
      using mf len by (metis nth_map)
    show ?thesis
    proof (intro conjI allI impI)
      show "map feat (sliders (pageOf (correctAll ev (item # items) p))) = map feat (sliders p)"
        using ih mf Done by simp
    next
      fix j assume j: "j < length (sliders p)"
        and ne: "sliders (pageOf (correctAll ev (item # items) p)) ! j \<noteq> sliders p ! j"
      show "\<exists>it \<in> set (item # items). itemName it \<noteq> None \<and> feat (sliders p ! j) = itemName it"
      proof (cases "sliders q ! j = sliders p ! j")
        case True
        with ne Done have "sliders (pageOf (correctAll ev items q)) ! j \<noteq> sliders q ! j" by simp
        with ih j len obtain it where "it \<in> set items" "itemName it \<noteq> None"
          "feat (sliders q ! j) = itemName it"
          by auto
        with ft [OF j]
        have "it \<in> set (item # items) \<and> itemName it \<noteq> None \<and> feat (sliders p ! j) = itemName it"
          by simp
        then show ?thesis by blast
      next
        case False
        with one Done j show ?thesis by auto
      qed
    qed
  qed
qed

text \<open>What \<open>modified\<close> holds under a key other than \<open>__proto__\<close>: the value of the last
  slider that has this key.\<close>

lemma collectModified_fold:
  assumes "k \<noteq> js ''__proto__''"
  shows "map_of (fold (\<lambda>s m. case featKey s of
                    None \<Rightarrow> m
                  | Some k \<Rightarrow> if k = js ''__proto__'' then m else AList.update k (svalue s) m) ss m0) k
       = (if filter (\<lambda>s. featKey s = Some k) ss = [] then map_of m0 k
          else Some (svalue (last (filter (\<lambda>s. featKey s = Some k) ss))))"
  using assms
  by (induction ss arbitrary: m0) (auto simp: update_conv' split: option.splits)

lemma collectModified_value:
  assumes "s \<in> set ss" "featKey s = Some k" "k \<noteq> js ''__proto__''"
  shows "map_of (collectModified ss) k = Some (svalue (last (filter (\<lambda>s. featKey s = Some k) ss)))"
proof -
  from assms(1,2) have "filter (\<lambda>s. featKey s = Some k) ss \<noteq> []"
    by (auto simp: filter_empty_conv)
  then show ?thesis
    unfolding collectModified_def using collectModified_fold [OF assms(3), of ss "[]"] by simp
qed

text \<open>Showing the result and the tips leaves the sliders alone.\<close>

lemma updateResult_sliders: "sliders (pageOf (updateResult ev data p)) = sliders p"
  by (simp add: updateResult_def setResultText_def split: option.splits)

lemma appendTips_sliders: "sliders (pageOf (appendTips ts p)) = sliders p"
  by (induction ts arbitrary: p) (simp_all split: option.splits)

lemma updateSuggestions_sliders: "sliders (pageOf (updateSuggestions data p)) = sliders p"
  by (simp add: updateSuggestions_def appendTips_sliders split: option.splits jsval.splits)

lemma tryBody_sliders:
  "sliders (pageOf (tryBody ev resp p)) = sliders p
   \<or> (\<exists>q. sliders q = sliders p
          \<and> sliders (pageOf (tryBody ev resp p)) = sliders (pageOf (correctAll ev (correctionItems resp) q)))"
proof (cases resp)
  case NetworkError
  then show ?thesis by (simp add: tryBody_def)
next
  case (Response ok status b)
  show ?thesis
  proof (cases b)
    case BadJson
    with Response show ?thesis by (simp add: tryBody_def)
  next
    case (Json data)
    show ?thesis
    proof (cases ok)
      case False
      with Response show ?thesis by (simp add: tryBody_def)
    next
      case True
      show ?thesis
      proof (cases "updateResult ev data p")
        case (Threw q)
        with updateResult_sliders [of ev data p] Response Json True show ?thesis
          by (simp add: tryBody_def andThen_def)
      next
        case (Done q1)
        with updateResult_sliders [of ev data p] have s1: "sliders q1 = sliders p" by simp
        show ?thesis
        proof (cases "updateSuggestions data q1")
          case (Threw q)
          with updateSuggestions_sliders [of data q1] s1 Done Response Json True show ?thesis
            by (simp add: tryBody_def andThen_def)
        next
          case d2: (Done q2)
          with updateSuggestions_sliders [of data q1] s1 have s2: "sliders q2 = sliders p" by simp
          have t: "tryBody ev resp p = applyCorrections ev data q2"
            using Response Json True Done d2 by (simp add: tryBody_def andThen_def)
          have "applyCorrections ev data q2 = Threw q2 \<or> applyCorrections ev data q2 = Done q2
                \<or> applyCorrections ev data q2 = correctAll ev (correctionItems resp) q2"
            using Response Json
            by (simp add: applyCorrections_def correctionItems_def truthy_def
                    split: option.splits jsval.splits)
          with t s2 show ?thesis by auto
        qed
      qed
    qed
  qed
qed

lemma clickResume_sliders:
  "sliders (fst (clickResume ev resp p)) = sliders (pageOf (tryBody ev resp p))"
  by (simp add: clickResume_def split: outcome.splits)

text \<open>
  C10, as the code has it. Let every name among the returned corrections stand for
  itself between the quotes of the selector: no double quote, backslash, line feed,
  carriage return, form feed, NUL or unpaired surrogate in it. Then a slider that the
  handler changes when the response has come back has a \<open>data-feat\<close> attribute equal
  to the name of one of the corrections. A slider without \<open>data-feat\<close> is therefore
  left as it is, although its id or name was a key of \<open>modified\<close>, where it held the
  value of the last slider with that key (the key \<open>__proto__\<close> apart, which makes no
  entry).
\<close>

theorem corrections_need_data_feat:
  assumes "plainNames (correctionItems resp)"
  shows "(\<forall>j < length (sliders p).
            sliders (fst (clickResume ev resp p)) ! j \<noteq> sliders p ! j \<longrightarrow>
              (\<exists>item \<in> set (correctionItems resp).
                 itemName item \<noteq> None \<and> feat (sliders p ! j) = itemName item))
       \<and> (\<forall>j < length (sliders p).
            feat (sliders p ! j) = None \<longrightarrow>
              sliders (fst (clickResume ev resp p)) ! j = sliders p ! j
              \<and> (\<forall>k. featKey (sliders p ! j) = Some k \<longrightarrow> k \<noteq> js ''__proto__'' \<longrightarrow>
                     map_of (collectModified (sliders p)) k =
                       Some (svalue (last (filter (\<lambda>s. featKey s = Some k) (sliders p))))))"
proof -
  have changed: "\<exists>item \<in> set (correctionItems resp).
                   itemName item \<noteq> None \<and> feat (sliders p ! j) = itemName item"
    if j: "j < length (sliders p)"
      and ne: "sliders (fst (clickResume ev resp p)) ! j \<noteq> sliders p ! j" for j
  proof -
    from ne have ne': "sliders (pageOf (tryBody ev resp p)) ! j \<noteq> sliders p ! j"
      by (simp add: clickResume_sliders)
    with tryBody_sliders [of ev resp p] obtain q where q: "sliders q = sliders p"
      and t: "sliders (pageOf (tryBody ev resp p)) = sliders (pageOf (correctAll ev (correctionItems resp) q))"
      by auto
    from ne' t q have "sliders (pageOf (correctAll ev (correctionItems resp) q)) ! j \<noteq> sliders q ! j"
      by simp
    with correctAll_sliders [OF assms, of ev q] j q show ?thesis by auto
  qed
  show ?thesis
  proof (intro conjI allI impI)
    fix j assume "j < length (sliders p)"
      and "sliders (fst (clickResume ev resp p)) ! j \<noteq> sliders p ! j"
    then show "\<exists>item \<in> set (correctionItems resp).
                 itemName item \<noteq> None \<and> feat (sliders p ! j) = itemName item"
      by (rule changed)
  next
    fix j assume j: "j < length (sliders p)" and f: "feat (sliders p ! j) = None"
    show "sliders (fst (clickResume ev resp p)) ! j = sliders p ! j"
    proof (rule ccontr)
      assume "sliders (fst (clickResume ev resp p)) ! j \<noteq> sliders p ! j"
      from changed [OF j this] f show False by auto
    qed
  next
    fix j k assume j: "j < length (sliders p)"
      and "featKey (sliders p ! j) = Some k" "k \<noteq> js ''__proto__''"
    then show "map_of (collectModified (sliders p)) k =
                 Some (svalue (last (filter (\<lambda>s. featKey s = Some k) (sliders p))))"
      using collectModified_value [of "sliders p ! j" "sliders p" k] by simp
  qed
qed

text \<open>On the results page the server corrects \<open>age\<close> and \<open>bmi\<close>; the BMI slider, known
  by its id only, keeps its value, which was sent under the key \<open>bmi\<close>.\<close>

theorem corrections_need_data_feat_witness:
  "plainNames (correctionItems correctionResponse)
   \<and> feat (sliders resultsPage ! 1) = None
   \<and> featKey (sliders resultsPage ! 1) = Some (js ''bmi'')
   \<and> sliders (fst (clickResume noEnv correctionResponse resultsPage)) ! 1 = sliders resultsPage ! 1
   \<and> map_of (collectModified (sliders resultsPage)) (js ''bmi'') = Some (js ''22.5'')"
proof -
  have h: "plainNames (correctionItems correctionResponse)" by code_simp
  have l: "1 < length (sliders resultsPage)" by code_simp
  have f: "feat (sliders resultsPage ! 1) = None" by code_simp
  have k: "featKey (sliders resultsPage ! 1) = Some (js ''bmi'')" by code_simp
  have n: "js ''bmi'' \<noteq> js ''__proto__''" by code_simp
  have v: "svalue (last (filter (\<lambda>s. featKey s = Some (js ''bmi'')) (sliders resultsPage))) = js ''22.5''"
    by code_simp
  from corrections_need_data_feat [OF h, of resultsPage noEnv] l f k n
  have "sliders (fst (clickResume noEnv correctionResponse resultsPage)) ! 1 = sliders resultsPage ! 1"
    and "map_of (collectModified (sliders resultsPage)) (js ''bmi'') =
           Some (svalue (last (filter (\<lambda>s. featKey s = Some (js ''bmi'')) (sliders resultsPage))))"
    by blast+
  with h f k v show ?thesis by simp
qed

text \<open>
  Against C10 as the spec words it. The server returns one correction whose name is
  \<open>zzz"],input.slider[id="bmi\<close>. The script pastes it between the quotes, and the
  selector reads \<open>input.slider[data-feat="zzz"],input.slider[id="bmi"]\<close>: a list of two
  selectors, whose first match on the results page is the BMI slider. That slider has
  no \<open>data-feat\<close>, and its value goes from 22.5 to 30.
\<close>

theorem corrections_quoted_name_counterexample:
  "itemName (hd (correctionItems quotedResponse)) = Some quotedName
   \<and> \<not> cssPlain quotedName
   \<and> otherSelector listEnv quotedName = Match 1
   \<and> feat (sliders resultsPage ! 1) = None
   \<and> sid (sliders resultsPage ! 1) = js ''bmi''
   \<and> svalue (sliders resultsPage ! 1) = js ''22.5''
   \<and> svalue (sliders (fst (clickResume listEnv quotedResponse resultsPage)) ! 1) = js ''30''"
  by code_simp

section \<open>The tabbed form\<close>

lemma clearError_controls:
  "controls (clearError st i) = (controls st)[i := (controls st ! i)\<lparr>finvalid := False\<rparr>]"
  by (simp add: clearError_def Let_def split: option.splits)

lemma clearError_smalls:
  "smalls (clearError st i) =
     (case fsmall (controls st ! i) of
        None \<Rightarrow> smalls st
      | Some j \<Rightarrow>
          if strTruthy (soriginalText (smalls st ! j))
          then (smalls st)[j := (smalls st ! j)\<lparr>stext := the (soriginalText (smalls st ! j)),
                                                serrorMessage := False\<rparr>]
          else smalls st)"
  by (simp add: clearError_def Let_def strTruthy_def split: option.splits)

lemma showError_controls:
  "controls (showError st i m) = (controls st)[i := (controls st ! i)\<lparr>finvalid := True\<rparr>]"
  by (simp add: showError_def Let_def split: option.splits)

lemma validateInput_disabled:
  "fdisabled (controls st ! i) \<Longrightarrow> validateInput st i = (True, clearError st i)"
  by (cases "i < length (controls st)")
     (simp_all add: validateInput_def Let_def clearError_controls list_update_beyond)

lemma validateInput_controls:
  "\<exists>b. controls (snd (validateInput st i)) = (controls st)[i := (controls st ! i)\<lparr>finvalid := b\<rparr>]"
proof -
  have "controls (snd (validateInput st i)) = (controls st)[i := (controls st ! i)\<lparr>finvalid := False\<rparr>]
      \<or> controls (snd (validateInput st i)) = (controls st)[i := (controls st ! i)\<lparr>finvalid := True\<rparr>]"
    by (cases "i < length (controls st)")
       (simp_all add: validateInput_def Let_def clearError_controls showError_controls
          list_update_beyond)
  then show ?thesis by blast
qed

text \<open>\<open>validateInput\<close> on field \<open>i\<close> changes no other field, and of field \<open>i\<close> only the
  class \<open>invalid\<close>.\<close>

lemma validateInput_frame:
  "length (controls (snd (validateInput st i))) = length (controls st)"
  "fvalidity (controls (snd (validateInput st i)) ! j) = fvalidity (controls st ! j)"
  "fdisabled (controls (snd (validateInput st i)) ! j) = fdisabled (controls st ! j)"
  "fpanels (controls (snd (validateInput st i)) ! j) = fpanels (controls st ! j)"
  "j \<noteq> i \<Longrightarrow> controls (snd (validateInput st i)) ! j = controls st ! j"
proof -
  obtain b where c: "controls (snd (validateInput st i)) = (controls st)[i := (controls st ! i)\<lparr>finvalid := b\<rparr>]"
    using validateInput_controls by blast
  show "length (controls (snd (validateInput st i))) = length (controls st)" by (simp add: c)
  show "fvalidity (controls (snd (validateInput st i)) ! j) = fvalidity (controls st ! j)"
    by (cases "i < length (controls st)") (simp_all add: c nth_list_update list_update_beyond)
  show "fdisabled (controls (snd (validateInput st i)) ! j) = fdisabled (controls st ! j)"
    by (cases "i < length (controls st)") (simp_all add: c nth_list_update list_update_beyond)
  show "fpanels (controls (snd (validateInput st i)) ! j) = fpanels (controls st ! j)"
    by (cases "i < length (controls st)") (simp_all add: c nth_list_update list_update_beyond)
  show "j \<noteq> i \<Longrightarrow> controls (snd (validateInput st i)) ! j = controls st ! j"
    by (simp add: c)
qed

lemma validateInput_result:
  "fst (validateInput st i) = (fdisabled (controls st ! i) \<or> valid (fvalidity (controls st ! i)))"
  by (cases "i < length (controls st)")
     (simp_all add: validateInput_def Let_def clearError_controls list_update_beyond)

text \<open>Validation never touches panels, tabs or the focus.\<close>

lemma validateInput_panels:
  "panels (snd (validateInput st i)) = panels st"
  "tabs (snd (validateInput st i)) = tabs st"
  "focused (snd (validateInput st i)) = focused st"
  by (simp_all add: validateInput_def Let_def clearError_def showError_def split: option.splits)

text \<open>
  C4, as the code has it. On a disabled field \<open>validateInput\<close> answers true and shows no
  error, but it is not without effect: it has run \<open>clearError\<close> before it looks at the
  disabled flag. So the class \<open>invalid\<close> is taken off the field, and a \<open>small\<close> element
  with a saved, non-empty original text gets that text back and loses the class
  \<open>error-message\<close>. Panels, tabs and focus stay.
\<close>

theorem validateInput_disabled_clears:
  assumes "fdisabled (controls st ! i)"
  shows "validateInput st i = (True, clearError st i)
       \<and> controls (clearError st i) = (controls st)[i := (controls st ! i)\<lparr>finvalid := False\<rparr>]
       \<and> smalls (clearError st i) =
           (case fsmall (controls st ! i) of
              None \<Rightarrow> smalls st
            | Some j \<Rightarrow>
                if strTruthy (soriginalText (smalls st ! j))
                then (smalls st)[j := (smalls st ! j)\<lparr>stext := the (soriginalText (smalls st ! j)),
                                                      serrorMessage := False\<rparr>]
                else smalls st)
       \<and> panels (clearError st i) = panels st \<and> tabs (clearError st i) = tabs st
       \<and> focused (clearError st i) = focused st"
proof -
  have "panels (clearError st i) = panels st \<and> tabs (clearError st i) = tabs st
       \<and> focused (clearError st i) = focused st"
    by (simp add: clearError_def Let_def split: option.splits)
  with validateInput_disabled [OF assms] clearError_controls [of st i] clearError_smalls [of st i]
  show ?thesis by simp
qed

theorem validateInput_disabled_clears_witness:
  "fdisabled (controls wizard ! 2) \<and> validateInput wizard 2 = (True, clearError wizard 2)"
proof -
  have h: "fdisabled (controls wizard ! 2)" by code_simp
  from validateInput_disabled_clears [OF h] have "validateInput wizard 2 = (True, clearError wizard 2)"
    by (rule conjunct1)
  with h show ?thesis by (rule conjI)
qed

text \<open>
  Against C4 as the spec words it. The third field of the form is disabled and still
  shows an error. \<open>validateInput\<close> answers true for it, takes the class \<open>invalid\<close> off
  and puts the original text back into its \<open>small\<close> element: marker and message are
  not as they were.
\<close>

theorem validateInput_disabled_counterexample:
  "fdisabled (controls wizard ! 2)
   \<and> fst (validateInput wizard 2)
   \<and> finvalid (controls wizard ! 2)
   \<and> \<not> finvalid (controls (snd (validateInput wizard 2)) ! 2)
   \<and> fsmall (controls wizard ! 2) = Some 2
   \<and> stext (smalls wizard ! 2) = ''This field is required.''
   \<and> serrorMessage (smalls wizard ! 2)
   \<and> stext (smalls (snd (validateInput wizard 2)) ! 2) = ''Cigarettes per day''
   \<and> \<not> serrorMessage (smalls (snd (validateInput wizard 2)) ! 2)"
  by code_simp

subsection \<open>validatePanel\<close>

lemma everyValid_result:
  assumes "\<forall>i \<in> set fs. \<not> fdisabled (controls st ! i)"
  shows "fst (everyValid st fs) = (\<forall>i \<in> set fs. valid (fvalidity (controls st ! i)))"
  using assms
proof (induction fs arbitrary: st)
  case Nil
  then show ?case by simp
next
  case (Cons i rest)
  let ?st1 = "snd (validateInput st i)"
  have res: "validateInput st i = (valid (fvalidity (controls st ! i)), ?st1)"
    using validateInput_result [of st i] Cons.prems by (cases "validateInput st i") simp
  have pre: "\<forall>j \<in> set rest. \<not> fdisabled (controls ?st1 ! j)"
    using Cons.prems by (simp add: validateInput_frame)
  show ?case
  proof (cases "valid (fvalidity (controls st ! i))")
    case True
    have "fst (everyValid st (i # rest)) = fst (everyValid ?st1 rest)"
      using True by (subst everyValid.simps, subst res) simp
    with Cons.IH [OF pre] True show ?thesis by (simp add: validateInput_frame)
  next
    case False
    have "fst (everyValid st (i # rest)) = False"
      using False by (subst everyValid.simps, subst res) simp
    with False show ?thesis by simp
  qed
qed

lemma firstFailurePrefix_simps:
  "firstFailurePrefix st [] = []"
  "firstFailurePrefix st (i # rest) =
     (if valid (fvalidity (controls st ! i)) then i # firstFailurePrefix st rest else [i])"
  by (simp_all add: firstFailurePrefix_def)

lemma firstFailurePrefix_validateInput:
  "firstFailurePrefix (snd (validateInput st i)) fs = firstFailurePrefix st fs"
  by (simp add: firstFailurePrefix_def validateInput_frame)

lemma everyValid_state:
  assumes "\<forall>i \<in> set fs. \<not> fdisabled (controls st ! i)"
  shows "snd (everyValid st fs) = fold (\<lambda>i s. snd (validateInput s i)) (firstFailurePrefix st fs) st"
  using assms
proof (induction fs arbitrary: st)
  case Nil
  then show ?case by (simp add: firstFailurePrefix_simps)
next
  case (Cons i rest)
  let ?st1 = "snd (validateInput st i)"
  have res: "validateInput st i = (valid (fvalidity (controls st ! i)), ?st1)"
    using validateInput_result [of st i] Cons.prems by (cases "validateInput st i") simp
  have pre: "\<forall>j \<in> set rest. \<not> fdisabled (controls ?st1 ! j)"
    using Cons.prems by (simp add: validateInput_frame)
  show ?case
  proof (cases "valid (fvalidity (controls st ! i))")
    case True
    have "snd (everyValid st (i # rest)) = snd (everyValid ?st1 rest)"
      using True by (subst everyValid.simps, subst res) simp
    also have "\<dots> = fold (\<lambda>i s. snd (validateInput s i)) (firstFailurePrefix st rest) ?st1"
      using Cons.IH [OF pre] by (simp add: firstFailurePrefix_validateInput)
    finally show ?thesis using True by (simp add: firstFailurePrefix_simps)
  next
    case False
    have "snd (everyValid st (i # rest)) = ?st1"
      using False by (subst everyValid.simps, subst res) simp
    then show ?thesis using False by (simp add: firstFailurePrefix_simps)
  qed
qed

lemma panelFields_enabled: "\<forall>i \<in> set (panelFields st p). \<not> fdisabled (controls st ! i)"
  by (simp add: panelFields_def)

lemma fold_validate_untouched:
  "j \<notin> set fs \<Longrightarrow> controls (fold (\<lambda>i s. snd (validateInput s i)) fs st) ! j = controls st ! j"
  by (induction fs arbitrary: st) (simp_all add: validateInput_frame)

text \<open>
  C5, as the code has it. \<open>validatePanel\<close> answers true exactly when every enabled field
  of the panel is valid. Its effect on the document is that of \<open>validateInput\<close> run on
  the enabled fields in document order up to and including the first invalid one:
  \<open>every\<close> stops there, and the fields after it are not looked at, so their error
  presentation is neither rendered nor cleared.
\<close>

theorem validatePanel_first_failure:
  "fst (validatePanel st p) = (\<forall>i \<in> set (panelFields st p). valid (fvalidity (controls st ! i)))
   \<and> snd (validatePanel st p) =
       fold (\<lambda>i s. snd (validateInput s i)) (firstFailurePrefix st (panelFields st p)) st
   \<and> (\<forall>j. j \<notin> set (firstFailurePrefix st (panelFields st p)) \<longrightarrow>
          controls (snd (validatePanel st p)) ! j = controls st ! j)"
  using everyValid_result [OF panelFields_enabled, of st p]
    everyValid_state [OF panelFields_enabled, of st p]
  by (simp add: validatePanel_def fold_validate_untouched)

theorem validatePanel_first_failure_witness:
  "1 \<notin> set (firstFailurePrefix wizard (panelFields wizard 0))
   \<and> controls (snd (validatePanel wizard 0)) ! 1 = controls wizard ! 1"
proof -
  have h: "1 \<notin> set (firstFailurePrefix wizard (panelFields wizard 0))" by code_simp
  from validatePanel_first_failure [of wizard 0] h
  have "controls (snd (validatePanel wizard 0)) ! 1 = controls wizard ! 1" by blast
  with h show ?thesis by (rule conjI)
qed

text \<open>
  Against C5 as the spec words it. The open panel of the form holds two enabled fields,
  both invalid. \<open>validatePanel\<close> marks the first and leaves the second as it was: no
  marker, no message, although \<open>validateInput\<close> on that field alone would mark it.
\<close>

theorem validatePanel_later_field_counterexample:
  "panelFields wizard 0 = [0, 1]
   \<and> \<not> fdisabled (controls wizard ! 1)
   \<and> \<not> valid (fvalidity (controls wizard ! 1))
   \<and> \<not> fst (validatePanel wizard 0)
   \<and> finvalid (controls (snd (validatePanel wizard 0)) ! 0)
   \<and> \<not> finvalid (controls (snd (validatePanel wizard 0)) ! 1)
   \<and> smalls (snd (validatePanel wizard 0)) ! 1 = smalls wizard ! 1
   \<and> finvalid (controls (snd (validateInput wizard 1)) ! 1)"
  by code_simp

subsection \<open>showPanelById\<close>

lemma showPanelById_panels:
  "map pactive (panels (showPanelById st t)) = map (\<lambda>p. Some (pid p) = t) (panels st)"
  "map pid (panels (showPanelById st t)) = map pid (panels st)"
  by (simp_all add: showPanelById_def focusField_def Let_def split: option.splits)

text \<open>After \<open>showPanelById\<close> the open panels are those whose id is the argument: one when
  the ids are distinct and the argument is among them, none when it is not.\<close>

lemma showPanelById_activeCount:
  "activeCount (showPanelById st t) = length (filter (\<lambda>p. Some (pid p) = t) (panels st))"
proof -
  have "activeCount (showPanelById st t) = length (filter id (map pactive (panels (showPanelById st t))))"
    by (simp add: activeCount_def filter_map comp_def)
  also have "\<dots> = length (filter (\<lambda>p. Some (pid p) = t) (panels st))"
    by (simp add: showPanelById_panels filter_map comp_def)
  finally show ?thesis .
qed

lemma filter_absent: "t \<notin> f ` set xs \<Longrightarrow> filter (\<lambda>p. f p = t) xs = []"
  by (induction xs) auto

lemma filter_unique:
  "distinct (map f xs) \<Longrightarrow> t \<in> f ` set xs \<Longrightarrow> length (filter (\<lambda>p. f p = t) xs) = 1"
proof (induction xs)
  case Nil
  then show ?case by simp
next
  case (Cons a xs)
  show ?case
  proof (cases "f a = t")
    case True
    with Cons.prems have "t \<notin> f ` set xs" by auto
    with True show ?thesis by (simp add: filter_absent)
  next
    case False
    with Cons show ?thesis by auto
  qed
qed

lemma showPanelById_one_active:
  assumes "distinct (map pid (panels st))" and "t \<in> pid ` set (panels st)"
  shows "activeCount (showPanelById st (Some t)) = 1"
  using filter_unique [OF assms] by (simp add: showPanelById_activeCount)

lemma showPanelById_none_active:
  assumes "t \<notin> pid ` set (panels st)"
  shows "activeCount (showPanelById st (Some t)) = 0"
  using filter_absent [OF assms] by (simp add: showPanelById_activeCount)

lemma showTabIndex_out_of_range:
  "index < 0 \<or> int (length (panels st)) \<le> index \<Longrightarrow> showTabIndex st index = st"
  by (auto simp: showTabIndex_def)

text \<open>
  C2, at an identifier the claim covers and the code gets wrong. The form has the
  panels \<open>step1\<close> (open) and \<open>step2\<close>; no panel is called \<open>step3\<close>.
  \<open>showPanelById("step3")\<close> is no no-op: it closes \<open>step1\<close>, hides both panels, takes
  the highlight off the first tab and puts it on the third. Only the focus stays.
\<close>

theorem showPanelById_missing_panel:
  "map pid (panels wizard) = [''step1'', ''step2'']
   \<and> map pactive (panels wizard) = [True, False]
   \<and> map pactive (panels (showPanelById wizard (Some ''step3''))) = [False, False]
   \<and> map pariaHidden (panels (showPanelById wizard (Some ''step3''))) = [Some ''true'', Some ''true'']
   \<and> map tactive (tabs wizard) = [True, False, False]
   \<and> map tactive (tabs (showPanelById wizard (Some ''step3''))) = [False, False, True]
   \<and> focused (showPanelById wizard (Some ''step3'')) = focused wizard"
  by code_simp

lemma everyValid_panels: "panels (snd (everyValid st fs)) = panels st"
proof (induction fs arbitrary: st)
  case Nil
  then show ?case by simp
next
  case (Cons i rest)
  obtain ok st1 where v: "validateInput st i = (ok, st1)" by (cases "validateInput st i")
  then have p: "panels st1 = panels st" using validateInput_panels(1) [of st i] by simp
  show ?case using Cons [of st1] p by (simp add: v)
qed

lemma validatePanel_panels: "panels (snd (validatePanel st p)) = panels st"
  by (simp add: validatePanel_def everyValid_panels)

lemma activeCount_panels: "panels st' = panels st \<Longrightarrow> activeCount st' = activeCount st"
  by (simp add: activeCount_def)

lemma nextClick_one_active:
  assumes d: "distinct (map pid (panels st))" and one: "activeCount st = 1"
    and t: "nbTarget b = Some t" "t \<in> pid ` set (panels st)"
  shows "activeCount (nextClick st b) = 1"
proof (cases "nbPanel b")
  case None
  with one show ?thesis by (simp add: nextClick_def)
next
  case (Some p)
  obtain ok st1 where v: "validatePanel st p = (ok, st1)" by (cases "validatePanel st p")
  then have p: "panels st1 = panels st" using validatePanel_panels [of st p] by simp
  show ?thesis
  proof (cases ok)
    case True
    from d t(2) p have "activeCount (showPanelById st1 (Some t)) = 1"
      by (intro showPanelById_one_active) simp_all
    with True Some v t(1) show ?thesis by (simp add: nextClick_def)
  next
    case False
    with Some v one activeCount_panels [OF p] show ?thesis by (simp add: nextClick_def)
  qed
qed

lemma validateInput_fpanels:
  "map fpanels (controls (snd (validateInput st i))) = map fpanels (controls st)"
proof -
  obtain b where c: "controls (snd (validateInput st i)) = (controls st)[i := (controls st ! i)\<lparr>finvalid := b\<rparr>]"
    using validateInput_controls by blast
  show ?thesis
    by (cases "i < length (controls st)")
       (simp_all add: c map_update list_update_beyond list_update_same_conv)
qed

lemma refsInRange_alt:
  "refsInRange st = list_all (list_all (\<lambda>q. q < length (panels st))) (map fpanels (controls st))"
  by (simp add: refsInRange_def list.pred_map comp_def)

lemma refsInRange_validateInput:
  "refsInRange st \<Longrightarrow> refsInRange (snd (validateInput st i))"
  by (simp add: refsInRange_alt validateInput_fpanels validateInput_panels)

lemma submitLoop_one_active:
  assumes "distinct (map pid (panels st))" "activeCount st = 1" "refsInRange st"
    "\<forall>i \<in> set fs. i < length (controls st)"
  shows "activeCount (fst (submitLoop st fs)) = 1"
  using assms
proof (induction fs arbitrary: st)
  case Nil
  then show ?case by simp
next
  case (Cons i rest)
  let ?st1 = "snd (validateInput st i)"
  obtain ok where v: "validateInput st i = (ok, ?st1)" by (cases "validateInput st i") simp
  have p: "panels ?st1 = panels st" by (rule validateInput_panels)
  have one1: "activeCount ?st1 = 1" using Cons.prems(2) activeCount_panels [OF p] by simp
  have d1: "distinct (map pid (panels ?st1))" using Cons.prems(1) p by simp
  have r1: "refsInRange ?st1" using Cons.prems(3) by (rule refsInRange_validateInput)
  have l1: "\<forall>j \<in> set rest. j < length (controls ?st1)"
    using Cons.prems(4) by (simp add: validateInput_frame)
  show ?case
  proof (cases ok)
    case True
    with Cons.IH [OF d1 one1 r1 l1] show ?thesis by (subst submitLoop.simps, subst v) simp
  next
    case False
    show ?thesis
    proof (cases "fpanels (controls ?st1 ! i)")
      case Nil
      with False one1 show ?thesis by (subst submitLoop.simps, subst v) simp
    next
      case (Cons q qs)
      from Cons.prems(4) have "i < length (controls ?st1)" by (simp add: validateInput_frame)
      with r1 Cons have "q < length (panels ?st1)"
        by (auto simp: refsInRange_def list_all_iff dest: nth_mem)
      then have "pid (panels ?st1 ! q) \<in> pid ` set (panels ?st1)" by simp
      with d1 have "activeCount (showPanelById ?st1 (Some (pid (panels ?st1 ! q)))) = 1"
        by (intro showPanelById_one_active)
      with False Cons show ?thesis by (subst submitLoop.simps, subst v) simp
    qed
  qed
qed

lemma formFields_range: "\<forall>i \<in> set (formFields st). i < length (controls st)"
  by (simp add: formFields_def)

text \<open>
  C3, as the code has it. Let the ids of the panels be pairwise distinct. Then
  \<open>showPanelById\<close> with the id of an existing panel leaves exactly one panel open, and
  so does a click on a tab whose target is such an id. From a document with exactly one
  open panel, a click on a next button whose target is such an id leaves exactly one
  open, whether validation passes or not, and so does the submit listener. Validation
  itself changes no panel, so the open panel changes only through \<open>showPanelById\<close>.
  Nothing is said of an identifier that names no panel.
\<close>

theorem one_active_panel:
  assumes "distinct (map pid (panels st))"
  shows "(t \<in> pid ` set (panels st) \<longrightarrow> activeCount (showPanelById st (Some t)) = 1)
       \<and> (ttarget (tabs st ! i) = Some t \<longrightarrow> t \<in> pid ` set (panels st) \<longrightarrow>
            activeCount (tabClick st i) = 1)
       \<and> (activeCount st = 1 \<longrightarrow> nbTarget b = Some t \<longrightarrow> t \<in> pid ` set (panels st) \<longrightarrow>
            activeCount (nextClick st b) = 1)
       \<and> (activeCount st = 1 \<longrightarrow> refsInRange st \<longrightarrow> activeCount (fst (submit st)) = 1)
       \<and> panels (snd (validateInput st j)) = panels st
       \<and> panels (snd (validatePanel st p)) = panels st"
proof (intro conjI impI)
  assume "t \<in> pid ` set (panels st)"
  with assms show "activeCount (showPanelById st (Some t)) = 1" by (rule showPanelById_one_active)
next
  assume "ttarget (tabs st ! i) = Some t" "t \<in> pid ` set (panels st)"
  with assms show "activeCount (tabClick st i) = 1"
    by (simp add: tabClick_def showPanelById_one_active)
next
  assume "activeCount st = 1" "nbTarget b = Some t" "t \<in> pid ` set (panels st)"
  with assms show "activeCount (nextClick st b) = 1" by (rule nextClick_one_active)
next
  assume "activeCount st = 1" "refsInRange st"
  with assms formFields_range show "activeCount (fst (submit st)) = 1"
    unfolding submit_def by (intro submitLoop_one_active)
next
  show "panels (snd (validateInput st j)) = panels st" by (rule validateInput_panels)
next
  show "panels (snd (validatePanel st p)) = panels st" by (rule validatePanel_panels)
qed

theorem one_active_panel_witness:
  "distinct (map pid (panels wizard))
   \<and> activeCount wizard = 1
   \<and> refsInRange wizard
   \<and> activeCount (showPanelById wizard (Some ''step2'')) = 1
   \<and> activeCount (tabClick wizard 1) = 1
   \<and> activeCount (nextClick wizard \<lparr> nbPanel = Some 1, nbTarget = Some ''step1'' \<rparr>) = 1
   \<and> activeCount (fst (submit wizard)) = 1"
proof -
  have d: "distinct (map pid (panels wizard))" by code_simp
  have one: "activeCount wizard = 1" by code_simp
  have r: "refsInRange wizard" by code_simp
  have t2: "''step2'' \<in> pid ` set (panels wizard)" by code_simp
  have t1: "''step1'' \<in> pid ` set (panels wizard)" by code_simp
  have tab: "ttarget (tabs wizard ! 1) = Some ''step2''" by code_simp
  have nb: "nbTarget \<lparr> nbPanel = Some 1, nbTarget = Some ''step1'' \<rparr> = Some ''step1''" by simp
  from one_active_panel [OF d, of "''step2''" 1] t2 tab
  have a: "activeCount (showPanelById wizard (Some ''step2'')) = 1"
    and b: "activeCount (tabClick wizard 1) = 1" by blast+
  from one_active_panel [OF d, of "''step1''" 0 "\<lparr> nbPanel = Some 1, nbTarget = Some ''step1'' \<rparr>"] one r t1 nb
  have c: "activeCount (nextClick wizard \<lparr> nbPanel = Some 1, nbTarget = Some ''step1'' \<rparr>) = 1"
    and e: "activeCount (fst (submit wizard)) = 1" by blast+
  from d one r a b c e show ?thesis by simp
qed

text \<open>
  Against C3 as the spec words it. With two panels of the same id, showing that id
  leaves two panels open. With a target that names no panel, a click on the tab, or on
  a next button without \<open>data-target\<close>, leaves none open.
\<close>

theorem one_active_panel_counterexample:
  "activeCount twinPanels = 1
   \<and> map pid (panels twinPanels) = [''a'', ''b'', ''b'']
   \<and> activeCount (showPanelById twinPanels (Some ''b'')) = 2
   \<and> activeCount wizard = 1
   \<and> map pid (panels wizard) = [''step1'', ''step2'']
   \<and> ttarget (tabs wizard ! 2) = Some ''step3''
   \<and> activeCount (tabClick wizard 2) = 0
   \<and> activeCount (nextClick wizard \<lparr> nbPanel = Some 1, nbTarget = None \<rparr>) = 0"
  by code_simp

end
